theory Spec2Isabelle
  imports Complex_Main "HOL-Library.AList" "HOL-Library.Multiset"
begin

section \<open>Load balancer (load\_balancer.py)\<close>

text \<open>
  The embedding follows \<^verbatim>\<open>load_balancer.py\<close> function by function. Python names that
  start with an underscore lose it (\<^verbatim>\<open>_create_agent_instance\<close> is
  \<open>create_agent_instance\<close>). Every function that mutates \<^verbatim>\<open>self\<close> takes the balancer
  and returns it updated, together with its outcome: \<open>Inr\<close> the returned value, \<open>Inl\<close>
  the exception raised. The balancer is returned in both cases, because a Python
  object keeps the mutations made before an exception.

  Three things come from outside the module and are parameters of the model:
  the agent factory (\<^verbatim>\<open>AgentFactory.get_agent\<close>, which may raise), the readings of
  \<^verbatim>\<open>time.time()\<close>, and the agents themselves (a type variable). Floats are modelled
  by reals.
\<close>

datatype exn =
    FactoryError string
  | ZeroDivisionError
  | ValueError string
  | IndexError
  | JobLookupError string
  | OtherError string

datatype LoadBalancingAlgorithm =
    ROUND_ROBIN
  | LEAST_CONNECTIONS
  | WEIGHTED_ROUND_ROBIN
  | RESPONSE_TIME

record 'a AgentInstance =
  agent_id :: string
  agent_type :: string
  agent :: 'a
  weight :: int
  active_connections :: int
  total_requests :: int
  total_response_time :: real
  last_used :: real
  health_status :: string
  created_at :: real

text \<open>
  \<^verbatim>\<open>agent_pools\<close> is a \<^verbatim>\<open>defaultdict(list)\<close>; it is iterated by \<^verbatim>\<open>auto_scale\<close>, so it is
  an association list in insertion order. \<^verbatim>\<open>round_robin_counters\<close> is a
  \<^verbatim>\<open>defaultdict(int)\<close> that is only read and written by key: a total function whose
  default is 0. \<^verbatim>\<open>agent_weights\<close> is a plain dict read with \<^verbatim>\<open>.get(agent_type, 1)\<close>.
\<close>

record 'a LoadBalancer =
  algorithm :: LoadBalancingAlgorithm
  agent_pools :: "(string \<times> 'a AgentInstance list) list"
  round_robin_counters :: "string \<Rightarrow> int"
  agent_weights :: "string \<rightharpoonup> int"
  max_connections_per_agent :: int

type_synonym 'a factory = "string \<Rightarrow> exn + 'a"

text \<open>The pool of a type; a missing key and an empty list read the same.\<close>

definition pool_of :: "'a LoadBalancer \<Rightarrow> string \<Rightarrow> 'a AgentInstance list" where
  "pool_of lb t = (case map_of (agent_pools lb) t of None \<Rightarrow> [] | Some p \<Rightarrow> p)"

definition set_pool ::
  "'a LoadBalancer \<Rightarrow> string \<Rightarrow> 'a AgentInstance list \<Rightarrow> 'a LoadBalancer" where
  "set_pool lb t p = lb\<lparr>agent_pools := AList.update t p (agent_pools lb)\<rparr>"

text \<open>Decimal rendering of a length, for the f-string that builds \<^verbatim>\<open>agent_id\<close>.\<close>

definition digit_char :: "nat \<Rightarrow> char" where
  "digit_char d = ''0123456789'' ! d"

function str_nat :: "nat \<Rightarrow> string" where
  "str_nat n = (if n < 10 then [digit_char n] else str_nat (n div 10) @ [digit_char (n mod 10)])"
  by pat_completeness auto
termination
  by (relation "measure id") auto

declare str_nat.simps [simp del]

text \<open>
  \<^verbatim>\<open>_create_agent_instance\<close>: the factory is called first, so when it raises nothing
  has been touched. The returned instance is named by its position in the pool.
\<close>

definition fresh_instance :: "'a LoadBalancer \<Rightarrow> string \<Rightarrow> 'a \<Rightarrow> real \<Rightarrow> 'a AgentInstance" where
  "fresh_instance lb t a now =
     \<lparr>agent_id = t @ ''_'' @ str_nat (length (pool_of lb t)),
      agent_type = t,
      agent = a,
      weight = (case agent_weights lb t of None \<Rightarrow> 1 | Some w \<Rightarrow> w),
      active_connections = 0,
      total_requests = 0,
      total_response_time = 0,
      last_used = 0,
      health_status = ''healthy'',
      created_at = now\<rparr>"

definition create_agent_instance ::
  "'a factory \<Rightarrow> real \<Rightarrow> 'a LoadBalancer \<Rightarrow> string \<Rightarrow> (exn + nat) \<times> 'a LoadBalancer" where
  "create_agent_instance fac now lb t =
     (case fac t of
        Inl e \<Rightarrow> (Inl e, lb)
      | Inr a \<Rightarrow>
          (Inr (length (pool_of lb t)),
           set_pool lb t (pool_of lb t @ [fresh_instance lb t a now])))"

text \<open>
  The selection functions receive \<^verbatim>\<open>instances\<close>, the healthy instances in pool order,
  and return the position in that list of the instance they pick.
\<close>

definition round_robin_select ::
  "'a LoadBalancer \<Rightarrow> 'a AgentInstance list \<Rightarrow> string \<Rightarrow> (exn + nat) \<times> 'a LoadBalancer" where
  "round_robin_select lb instances t =
     (let counter = round_robin_counters lb t in
      if instances = [] then (Inl ZeroDivisionError, lb)
      else (Inr (nat (counter mod int (length instances))),
            lb\<lparr>round_robin_counters :=
                 (round_robin_counters lb)(t := (counter + 1) mod int (length instances))\<rparr>))"

text \<open>Python's \<^verbatim>\<open>min(xs, key=f)\<close>: the first element with the least key.\<close>

fun min_from :: "('b \<Rightarrow> 'k::linorder) \<Rightarrow> 'b list \<Rightarrow> nat \<Rightarrow> 'k \<Rightarrow> nat \<Rightarrow> nat" where
  "min_from key [] best bk i = best"
| "min_from key (x # xs) best bk i =
     (if key x < bk then min_from key xs i (key x) (Suc i)
      else min_from key xs best bk (Suc i))"

definition py_min :: "('b \<Rightarrow> 'k::linorder) \<Rightarrow> 'b list \<Rightarrow> exn + nat" where
  "py_min key xs =
     (case xs of
        [] \<Rightarrow> Inl (ValueError ''min() arg is an empty sequence'')
      | x # rest \<Rightarrow> Inr (min_from key rest 0 (key x) 1))"

definition least_connections_select :: "'a AgentInstance list \<Rightarrow> exn + nat" where
  "least_connections_select instances = py_min active_connections instances"

text \<open>The loop of \<^verbatim>\<open>_weighted_round_robin_select\<close>; \<open>None\<close> when it ends without a pick.\<close>

fun wrr_walk :: "'a AgentInstance list \<Rightarrow> int \<Rightarrow> int \<Rightarrow> nat \<Rightarrow> nat option" where
  "wrr_walk [] target current_weight i = None"
| "wrr_walk (instance # rest) target current_weight i =
     (if target < current_weight + weight instance then Some i
      else wrr_walk rest target (current_weight + weight instance) (Suc i))"

definition weighted_round_robin_select ::
  "'a LoadBalancer \<Rightarrow> 'a AgentInstance list \<Rightarrow> string \<Rightarrow> (exn + nat) \<times> 'a LoadBalancer" where
  "weighted_round_robin_select lb instances t =
     (let total_weight = sum_list (map weight instances);
          counter = round_robin_counters lb t
      in if total_weight = 0 then (Inl ZeroDivisionError, lb)
         else
           (case wrr_walk instances (counter mod total_weight) 0 0 of
              Some i \<Rightarrow>
                (Inr i, lb\<lparr>round_robin_counters :=
                            (round_robin_counters lb)(t := round_robin_counters lb t + 1)\<rparr>)
            | None \<Rightarrow> (if instances = [] then (Inl IndexError, lb) else (Inr 0, lb))))"

definition avg_response_time :: "'a AgentInstance \<Rightarrow> real" where
  "avg_response_time instance =
     (if total_requests instance = 0 then 0
      else total_response_time instance / real_of_int (total_requests instance))"

definition response_time_select :: "'a AgentInstance list \<Rightarrow> exn + nat" where
  "response_time_select instances = py_min avg_response_time instances"

definition select_instance ::
  "'a LoadBalancer \<Rightarrow> 'a AgentInstance list \<Rightarrow> string \<Rightarrow> (exn + nat) \<times> 'a LoadBalancer" where
  "select_instance lb instances t =
     (case algorithm lb of
        ROUND_ROBIN \<Rightarrow> round_robin_select lb instances t
      | LEAST_CONNECTIONS \<Rightarrow> (least_connections_select instances, lb)
      | WEIGHTED_ROUND_ROBIN \<Rightarrow> weighted_round_robin_select lb instances t
      | RESPONSE_TIME \<Rightarrow> (response_time_select instances, lb))"

definition healthy_indices :: "'a AgentInstance list \<Rightarrow> nat list" where
  "healthy_indices p = filter (\<lambda>i. health_status (p ! i) = ''healthy'') [0..<length p]"

text \<open>
  \<^verbatim>\<open>get_agent\<close> up to its last line: \<open>acquire\<close> returns the position in the pool of
  \<^verbatim>\<open>selected_instance\<close>, after the metrics update. \<open>get_agent\<close> returns its agent.
\<close>

definition used :: "real \<Rightarrow> 'a AgentInstance \<Rightarrow> 'a AgentInstance" where
  "used now instance =
     instance\<lparr>active_connections := active_connections instance + 1,
               total_requests := total_requests instance + 1,
               last_used := now\<rparr>"

definition acquire ::
  "'a factory \<Rightarrow> real \<Rightarrow> 'a LoadBalancer \<Rightarrow> string \<Rightarrow> (exn + nat) \<times> 'a LoadBalancer" where
  "acquire fac now lb t =
     (case (if pool_of lb t = [] then create_agent_instance fac now lb t else (Inr 0, lb)) of
        (Inl e, lb1) \<Rightarrow> (Inl e, lb1)
      | (Inr _, lb1) \<Rightarrow>
          (case (if healthy_indices (pool_of lb1 t) = []
                 then (case create_agent_instance fac now lb1 t of
                         (Inl e, lb2) \<Rightarrow> (Inl e, lb2)
                       | (Inr i, lb2) \<Rightarrow> (Inr [i], lb2))
                 else (Inr (healthy_indices (pool_of lb1 t)), lb1)) of
             (Inl e, lb2) \<Rightarrow> (Inl e, lb2)
           | (Inr idxs, lb2) \<Rightarrow>
               (case select_instance lb2 (map ((!) (pool_of lb2 t)) idxs) t of
                  (Inl e, lb3) \<Rightarrow> (Inl e, lb3)
                | (Inr k, lb3) \<Rightarrow>
                    let i = idxs ! k; p = pool_of lb3 t
                    in (Inr i, set_pool lb3 t (p[i := used now (p ! i)])))))"

definition get_agent ::
  "'a factory \<Rightarrow> real \<Rightarrow> 'a LoadBalancer \<Rightarrow> string \<Rightarrow> (exn + 'a) \<times> 'a LoadBalancer" where
  "get_agent fac now lb t =
     (case acquire fac now lb t of
        (Inl e, lb') \<Rightarrow> (Inl e, lb')
      | (Inr i, lb') \<Rightarrow> (Inr (agent (pool_of lb' t ! i)), lb'))"

text \<open>\<^verbatim>\<open>add_agent_instance\<close> overwrites the weight of the instance it has just created.\<close>

definition add_agent_instance ::
  "'a factory \<Rightarrow> real \<Rightarrow> 'a LoadBalancer \<Rightarrow> string \<Rightarrow> int \<Rightarrow> (exn + string) \<times> 'a LoadBalancer" where
  "add_agent_instance fac now lb t w =
     (case create_agent_instance fac now lb t of
        (Inl e, lb') \<Rightarrow> (Inl e, lb')
      | (Inr i, lb') \<Rightarrow>
          let p = pool_of lb' t
          in (Inr (agent_id (p ! i)), set_pool lb' t (p[i := (p ! i)\<lparr>weight := w\<rparr>])))"

text \<open>The first instance with the given id is popped; \<open>None\<close> when no instance has it.\<close>

fun remove_by_id :: "string \<Rightarrow> 'a AgentInstance list \<Rightarrow> 'a AgentInstance list option" where
  "remove_by_id aid [] = None"
| "remove_by_id aid (instance # rest) =
     (if agent_id instance = aid then Some rest
      else map_option ((#) instance) (remove_by_id aid rest))"

definition remove_agent_instance ::
  "'a LoadBalancer \<Rightarrow> string \<Rightarrow> string \<Rightarrow> bool \<times> 'a LoadBalancer" where
  "remove_agent_instance lb t aid =
     (case map_of (agent_pools lb) t of
        None \<Rightarrow> (False, lb)
      | Some instances \<Rightarrow>
          (case remove_by_id aid instances of
             None \<Rightarrow> (False, lb)
           | Some instances' \<Rightarrow> (True, set_pool lb t instances')))"

text \<open>\<^verbatim>\<open>for _ in range(instances_to_add)\<close>: no iteration when the count is not positive.\<close>

fun scale_up_loop ::
  "'a factory \<Rightarrow> real \<Rightarrow> 'a LoadBalancer \<Rightarrow> string \<Rightarrow> nat \<Rightarrow> (exn + unit) \<times> 'a LoadBalancer" where
  "scale_up_loop fac now lb t 0 = (Inr (), lb)"
| "scale_up_loop fac now lb t (Suc k) =
     (case add_agent_instance fac now lb t 1 of
        (Inl e, lb') \<Rightarrow> (Inl e, lb')
      | (Inr _, lb') \<Rightarrow> scale_up_loop fac now lb' t k)"

definition scale_up ::
  "'a factory \<Rightarrow> real \<Rightarrow> 'a LoadBalancer \<Rightarrow> string \<Rightarrow> int \<Rightarrow> (exn + unit) \<times> 'a LoadBalancer" where
  "scale_up fac now lb t instances_to_add = scale_up_loop fac now lb t (nat instances_to_add)"

text \<open>
  \<^verbatim>\<open>scale_down\<close>: \<^verbatim>\<open>sorted\<close> is stable, as \<open>sort_key\<close> is; the sorted list is a snapshot,
  and each removal looks the id up again in the live pool.
\<close>

definition scale_down :: "'a LoadBalancer \<Rightarrow> string \<Rightarrow> int \<Rightarrow> 'a LoadBalancer" where
  "scale_down lb t instances_to_remove =
     (case map_of (agent_pools lb) t of
        None \<Rightarrow> lb
      | Some instances \<Rightarrow>
          if int (length instances) \<le> instances_to_remove then lb
          else
            let instances_sorted = sort_key active_connections instances
            in fold (\<lambda>i lb'.
                       if i < length instances_sorted
                       then snd (remove_agent_instance lb' t (agent_id (instances_sorted ! i)))
                       else lb')
                 [0..<nat instances_to_remove] lb)"

text \<open>
  \<^verbatim>\<open>auto_scale\<close>, one pool at a time in dictionary order. The thresholds
  \<^verbatim>\<open>max_connections_per_agent * 0.7\<close> and \<^verbatim>\<open>* 0.3\<close> are taken over the reals.
\<close>

definition auto_scale_pool ::
  "'a factory \<Rightarrow> real \<Rightarrow> 'a LoadBalancer \<Rightarrow> string \<Rightarrow> (exn + unit) \<times> 'a LoadBalancer" where
  "auto_scale_pool fac now lb t =
     (let instances = pool_of lb t in
      if instances = [] then (Inr (), lb)
      else
        let total_connections = sum_list (map active_connections instances);
            avg_connections = real_of_int total_connections / real (length instances)
        in if avg_connections > real_of_int (max_connections_per_agent lb) * (7 / 10)
           then (if length instances < 5 then scale_up fac now lb t 1 else (Inr (), lb))
           else if avg_connections < real_of_int (max_connections_per_agent lb) * (3 / 10)
                   \<and> length instances > 1
           then (Inr (), scale_down lb t 1)
           else (Inr (), lb))"

fun auto_scale_loop ::
  "'a factory \<Rightarrow> real \<Rightarrow> 'a LoadBalancer \<Rightarrow> string list \<Rightarrow> (exn + unit) \<times> 'a LoadBalancer" where
  "auto_scale_loop fac now lb [] = (Inr (), lb)"
| "auto_scale_loop fac now lb (t # ts) =
     (case auto_scale_pool fac now lb t of
        (Inl e, lb') \<Rightarrow> (Inl e, lb')
      | (Inr _, lb') \<Rightarrow> auto_scale_loop fac now lb' ts)"

definition auto_scale ::
  "'a factory \<Rightarrow> real \<Rightarrow> 'a LoadBalancer \<Rightarrow> (exn + unit) \<times> 'a LoadBalancer" where
  "auto_scale fac now lb = auto_scale_loop fac now lb (map fst (agent_pools lb))"

definition set_algorithm :: "'a LoadBalancer \<Rightarrow> LoadBalancingAlgorithm \<Rightarrow> 'a LoadBalancer" where
  "set_algorithm lb alg = lb\<lparr>algorithm := alg\<rparr>"

definition set_agent_weight :: "'a LoadBalancer \<Rightarrow> string \<Rightarrow> int \<Rightarrow> 'a LoadBalancer" where
  "set_agent_weight lb t w =
     (let lb' = lb\<lparr>agent_weights := (agent_weights lb)(t \<mapsto> w)\<rparr>
      in case map_of (agent_pools lb') t of
           None \<Rightarrow> lb'
         | Some instances \<Rightarrow> set_pool lb' t (map (\<lambda>instance. instance\<lparr>weight := w\<rparr>) instances))"

text \<open>
  The balancer that \<^verbatim>\<open>__init__\<close> builds, before \<^verbatim>\<open>_initialize_agent_pools\<close> fills the
  pools: the configured weights, all counters 0, no pool.
\<close>

definition new_balancer :: "LoadBalancingAlgorithm \<Rightarrow> 'a LoadBalancer" where
  "new_balancer alg =
     \<lparr>algorithm = alg,
      agent_pools = [],
      round_robin_counters = (\<lambda>_. 0),
      agent_weights = [''Dabby Consultant'' \<mapsto> 3, ''Auditor Agent'' \<mapsto> 2, ''Tax Agent'' \<mapsto> 2],
      max_connections_per_agent = 10\<rparr>"

text \<open>
  The data model gives every instance a weight of at least 1. The code never checks
  it (\<^verbatim>\<open>set_agent_weight\<close> and \<^verbatim>\<open>add_agent_instance\<close> take any integer), so where a
  property depends on it, it is a hypothesis: on the instances of the pool and on the
  weight configured for the type, which new instances take.
\<close>

definition weights_ok :: "'a LoadBalancer \<Rightarrow> string \<Rightarrow> bool" where
  "weights_ok lb t \<longleftrightarrow>
     (\<forall>instance \<in> set (pool_of lb t). 1 \<le> weight instance)
     \<and> (case agent_weights lb t of None \<Rightarrow> True | Some w \<Rightarrow> 1 \<le> w)"

text \<open>
  Consecutive calls of \<^verbatim>\<open>get_agent\<close> for one type, one clock reading per call; the
  outcome of every call is kept, and a call that raised does not stop the next one.
\<close>

fun acquire_run ::
  "'a factory \<Rightarrow> 'a LoadBalancer \<Rightarrow> string \<Rightarrow> real list \<Rightarrow> (exn + nat) list \<times> 'a LoadBalancer" where
  "acquire_run fac lb t [] = ([], lb)"
| "acquire_run fac lb t (now # nows) =
     (case acquire fac now lb t of
        (r, lb') \<Rightarrow> (case acquire_run fac lb' t nows of (rs, lb'') \<Rightarrow> (r # rs, lb'')))"

text \<open>The healthy instances of a pool, as \<^verbatim>\<open>get_agent\<close> filters them, and their weights.\<close>

definition healthy_instances :: "'a AgentInstance list \<Rightarrow> 'a AgentInstance list" where
  "healthy_instances p = map ((!) p) (healthy_indices p)"

definition healthy_weights :: "'a AgentInstance list \<Rightarrow> int list" where
  "healthy_weights p = map weight (healthy_instances p)"

text \<open>The walk of \<open>wrr_walk\<close> read on the list of weights alone.\<close>

fun weight_walk :: "int list \<Rightarrow> int \<Rightarrow> int \<Rightarrow> nat \<Rightarrow> nat option" where
  "weight_walk [] target current_weight i = None"
| "weight_walk (w # ws) target current_weight i =
     (if target < current_weight + w then Some i
      else weight_walk ws target (current_weight + w) (Suc i))"

text \<open>
  Concrete inputs for the examples: a factory that always succeeds; a pool in which
  three instances were added with the weights 3, 2 and 2; a pool of two instances
  under round-robin, as \<^verbatim>\<open>_initialize_agent_pools\<close> builds for the consultant.
\<close>

definition unit_factory :: "unit factory" where
  "unit_factory t = Inr ()"

definition weighted_example :: "unit LoadBalancer" where
  "weighted_example =
     snd (add_agent_instance unit_factory 0
       (snd (add_agent_instance unit_factory 0
         (snd (add_agent_instance unit_factory 0
            (new_balancer WEIGHTED_ROUND_ROBIN) ''A'' 3)) ''A'' 2)) ''A'' 2)"

definition rr_example :: "unit LoadBalancer" where
  "rr_example =
     snd (create_agent_instance unit_factory 0
       (snd (create_agent_instance unit_factory 0
          (new_balancer ROUND_ROBIN) ''Dabby Consultant'')) ''Dabby Consultant'')"

definition tax_example :: "unit LoadBalancer" where
  "tax_example = snd (get_agent unit_factory 0 (new_balancer WEIGHTED_ROUND_ROBIN) ''Tax Agent'')"

text \<open>
  The operations that change the size of a pool, as a caller or the health checker
  issues them, and a run of them on one balancer. An operation that raises leaves
  the balancer as it was when the exception left it, and the next one goes on from
  there.
\<close>

datatype lb_op =
    ScaleUp string int
  | ScaleDown string int
  | AutoScale
  | Acquire string

fun apply_op :: "'a factory \<Rightarrow> real \<Rightarrow> 'a LoadBalancer \<Rightarrow> lb_op \<Rightarrow> 'a LoadBalancer" where
  "apply_op fac now lb (ScaleUp t n) = snd (scale_up fac now lb t n)"
| "apply_op fac now lb (ScaleDown t n) = scale_down lb t n"
| "apply_op fac now lb AutoScale = snd (auto_scale fac now lb)"
| "apply_op fac now lb (Acquire t) = snd (get_agent fac now lb t)"

fun run_ops :: "'a factory \<Rightarrow> real \<Rightarrow> 'a LoadBalancer \<Rightarrow> lb_op list \<Rightarrow> 'a LoadBalancer" where
  "run_ops fac now lb [] = lb"
| "run_ops fac now lb (op # ops) = run_ops fac now (apply_op fac now lb op) ops"

text \<open>Every pool that is a key of \<^verbatim>\<open>agent_pools\<close> has at least one instance.\<close>

definition pools_nonempty :: "'a LoadBalancer \<Rightarrow> bool" where
  "pools_nonempty lb \<longleftrightarrow> (\<forall>t \<in> fst ` set (agent_pools lb). pool_of lb t \<noteq> [])"

text \<open>
  \<^verbatim>\<open>_health_check_instance\<close>. The probe is an input: the exception it raised, or the
  time it took; \<^verbatim>\<open>max_response_time\<close> is the attribute set by \<^verbatim>\<open>__init__\<close> (30.0).
\<close>

definition health_check_instance ::
  "real \<Rightarrow> 'a LoadBalancer \<Rightarrow> exn + real \<Rightarrow> 'a AgentInstance \<Rightarrow> 'a AgentInstance" where
  "health_check_instance max_response_time lb probe instance =
     (case probe of
        Inl e \<Rightarrow> instance\<lparr>health_status := ''unhealthy''\<rparr>
      | Inr response_time \<Rightarrow>
          let checked = (if response_time > max_response_time
                         then instance\<lparr>health_status := ''unhealthy''\<rparr>
                         else instance\<lparr>health_status := ''healthy''\<rparr>)
          in if active_connections checked > max_connections_per_agent lb
             then checked\<lparr>health_status := ''overloaded''\<rparr>
             else checked)"

text \<open>
  Two more balancers for the examples: the pool with the weights 3, 2 and 2 after a
  health check in which every probe failed; and the initial balancer after
  \<^verbatim>\<open>set_agent_weight("Tax Agent", 0)\<close>.
\<close>

definition unhealthy_example :: "unit LoadBalancer" where
  "unhealthy_example =
     set_pool weighted_example ''A''
       (map (health_check_instance 30 weighted_example (Inl (OtherError ''probe failed'')))
          (pool_of weighted_example ''A''))"

definition zero_weight_example :: "unit LoadBalancer" where
  "zero_weight_example = set_agent_weight (new_balancer WEIGHTED_ROUND_ROBIN) ''Tax Agent'' 0"

section \<open>Task scheduler (scheduler.py)\<close>

text \<open>
  \<^verbatim>\<open>TaskScheduler\<close> keeps the job records in the dict \<^verbatim>\<open>self.tasks\<close> and hands the
  timers to APScheduler (\<^verbatim>\<open>self.scheduler\<close>, a \<^verbatim>\<open>BackgroundScheduler\<close> over a
  \<^verbatim>\<open>MemoryJobStore\<close>). The timer engine is not part of the repository. The model
  keeps what the scheduler code depends on: the set \<open>jobs\<close> of the job ids that have
  a pending one-shot trigger; \<^verbatim>\<open>add_job(..., replace_existing=True)\<close> puts the id in
  the set or raises, as the environment decides (an argument of the model);
  \<^verbatim>\<open>remove_job\<close> takes the id out and raises \<^verbatim>\<open>JobLookupError\<close> when it is not there;
  a firing takes the id out and calls \<^verbatim>\<open>_execute_task\<close>.

  The other inputs from outside are arguments too: the value of \<^verbatim>\<open>uuid.uuid4()\<close>,
  the readings of \<^verbatim>\<open>datetime.now()\<close>, the parser \<^verbatim>\<open>datetime.fromisoformat\<close>
  (\<open>None\<close> for \<^verbatim>\<open>ValueError\<close>), and the agent factory with the two methods of an
  agent (\<open>Inl\<close> the message of the exception they raise).

  A job record is a Python dict whose keys appear as the job advances: the keys
  that may be missing are optional fields. The status is one of five string
  literals: a datatype. The fields that hold \<^verbatim>\<open>isoformat()\<close> strings hold the datetime
  that was rendered.
\<close>

datatype status = Scheduled | Running | Completed | Failed | Cancelled

record datetime =
  micros :: int
  utcoffset :: "int option"

text \<open>\<^verbatim>\<open>d + timedelta(minutes=m)\<close>.\<close>

definition plus_minutes :: "datetime \<Rightarrow> int \<Rightarrow> datetime" where
  "plus_minutes d m = d\<lparr>micros := micros d + m * 60 * 1000000\<rparr>"

record task_info =
  task_id :: string
  task_type :: string
  session_id :: string
  agent_type :: string
  parameters :: "string \<rightharpoonup> string"
  created_at :: datetime
  scheduled_for :: datetime
  status :: status
  error :: "string option"
  result :: "string option"
  started_at :: "datetime option"
  completed_at :: "datetime option"
  failed_at :: "datetime option"
  cancelled_at :: "datetime option"
  rescheduled_at :: "datetime option"

record TaskScheduler =
  tasks :: "string \<rightharpoonup> task_info"
  jobs :: "string set"

definition new_scheduler :: TaskScheduler where
  "new_scheduler = \<lparr>tasks = Map.empty, jobs = {}\<rparr>"

record 'a capabilities =
  make_agent :: "string \<Rightarrow> string + 'a"
  analyze_file :: "'a \<Rightarrow> string \<Rightarrow> string \<Rightarrow> string \<Rightarrow> string + string"
  chat :: "'a \<Rightarrow> string \<Rightarrow> string \<Rightarrow> string + string"

definition add_job :: "TaskScheduler \<Rightarrow> string \<Rightarrow> string option \<Rightarrow> string + TaskScheduler" where
  "add_job s job_id add_failure =
     (case add_failure of
        Some msg \<Rightarrow> Inl msg
      | None \<Rightarrow> Inr (s\<lparr>jobs := insert job_id (jobs s)\<rparr>))"

definition remove_job :: "TaskScheduler \<Rightarrow> string \<Rightarrow> string + TaskScheduler" where
  "remove_job s job_id =
     (if job_id \<in> jobs s then Inr (s\<lparr>jobs := jobs s - {job_id}\<rparr>)
      else Inl (''No job by the id of '' @ job_id @ '' was found''))"

text \<open>\<^verbatim>\<open>schedule_time.replace('Z', '+00:00')\<close>.\<close>

definition replace_Z :: "string \<Rightarrow> string" where
  "replace_Z st = concat (map (\<lambda>c. if c = CHR ''Z'' then ''+00:00'' else [c]) st)"

text \<open>
  \<^verbatim>\<open>schedule_task\<close>. \<open>now_run\<close> is the clock reading behind the default run date,
  \<open>now_created\<close> the later one stored as \<^verbatim>\<open>created_at\<close>.
\<close>

definition new_task ::
  "(string \<Rightarrow> datetime option) \<Rightarrow> string \<Rightarrow> datetime \<Rightarrow> datetime \<Rightarrow>
   string \<Rightarrow> string \<Rightarrow> string \<Rightarrow> string option \<Rightarrow> (string \<rightharpoonup> string) option \<Rightarrow> task_info" where
  "new_task fromisoformat uuid4 now_run now_created
       task_type' session_id' agent_type' schedule_time parameters' =
     (let run_date =
            (case schedule_time of
               None \<Rightarrow> plus_minutes now_run 1
             | Some st \<Rightarrow>
                 if st = [] then plus_minutes now_run 1
                 else (case fromisoformat (replace_Z st) of
                         Some d \<Rightarrow> d
                       | None \<Rightarrow> plus_minutes now_run 1))
      in \<lparr>task_id = uuid4,
          task_type = task_type',
          session_id = session_id',
          agent_type = agent_type',
          parameters = (case parameters' of None \<Rightarrow> Map.empty | Some ps \<Rightarrow> ps),
          created_at = now_created,
          scheduled_for = run_date,
          status = Scheduled,
          error = None,
          result = None,
          started_at = None,
          completed_at = None,
          failed_at = None,
          cancelled_at = None,
          rescheduled_at = None\<rparr>)"

text \<open>The scheduler after \<^verbatim>\<open>self.tasks[task_id] = task_info\<close>.\<close>

definition store_task :: "TaskScheduler \<Rightarrow> task_info \<Rightarrow> TaskScheduler" where
  "store_task s info = s\<lparr>tasks := (tasks s)(task_id info \<mapsto> info)\<rparr>"

definition schedule_task ::
  "(string \<Rightarrow> datetime option) \<Rightarrow> string \<Rightarrow> datetime \<Rightarrow> datetime \<Rightarrow> string option \<Rightarrow>
   TaskScheduler \<Rightarrow> string \<Rightarrow> string \<Rightarrow> string \<Rightarrow> string option \<Rightarrow> (string \<rightharpoonup> string) option \<Rightarrow>
   string \<times> TaskScheduler" where
  "schedule_task fromisoformat uuid4 now_run now_created add_failure s
       task_type' session_id' agent_type' schedule_time parameters' =
     (let info = new_task fromisoformat uuid4 now_run now_created
                   task_type' session_id' agent_type' schedule_time parameters';
          s1 = store_task s info
      in case add_job s1 uuid4 add_failure of
           Inr s2 \<Rightarrow> (uuid4, s2\<lparr>tasks := (tasks s2)(uuid4 \<mapsto> info\<lparr>status := Scheduled\<rparr>)\<rparr>)
         | Inl msg \<Rightarrow>
             (uuid4, s1\<lparr>tasks := (tasks s1)(uuid4 \<mapsto> info\<lparr>status := Failed, error := Some msg\<rparr>)\<rparr>))"

text \<open>The handlers; a parameter is falsy when it is missing or the empty string.\<close>

definition execute_file_analysis :: "'a capabilities \<Rightarrow> 'a \<Rightarrow> task_info \<Rightarrow> string + string" where
  "execute_file_analysis caps a info =
     (case (parameters info ''file_path'', parameters info ''file_name'') of
        (Some file_path, Some file_name) \<Rightarrow>
          if file_path = [] \<or> file_name = []
          then Inl ''file_path and file_name required for file_analysis task''
          else analyze_file caps a file_name file_path (session_id info)
      | _ \<Rightarrow> Inl ''file_path and file_name required for file_analysis task'')"

definition execute_audit_report :: "'a capabilities \<Rightarrow> 'a \<Rightarrow> task_info \<Rightarrow> string + string" where
  "execute_audit_report caps a info =
     (let audit_type = (case parameters info ''audit_type'' of None \<Rightarrow> ''financial'' | Some v \<Rightarrow> v)
      in chat caps a (''Generate a comprehensive '' @ audit_type
                        @ '' audit report based on previous analysis.'') (session_id info))"

definition execute_tax_calculation ::
  "'a capabilities \<Rightarrow> nat \<Rightarrow> 'a \<Rightarrow> task_info \<Rightarrow> string + string" where
  "execute_tax_calculation caps year a info =
     (let tax_year = (case parameters info ''tax_year'' of None \<Rightarrow> str_nat year | Some v \<Rightarrow> v)
      in chat caps a (''Perform tax calculations and optimization analysis for '' @ tax_year @ ''.'')
           (session_id info))"

definition execute_consultation :: "'a capabilities \<Rightarrow> 'a \<Rightarrow> task_info \<Rightarrow> string + string" where
  "execute_consultation caps a info =
     (let consultation_topic =
            (case parameters info ''topic'' of
               None \<Rightarrow> ''general financial consultation'' | Some v \<Rightarrow> v)
      in chat caps a (''Provide consultation on: '' @ consultation_topic) (session_id info))"

definition execute_custom_task :: "'a capabilities \<Rightarrow> 'a \<Rightarrow> task_info \<Rightarrow> string + string" where
  "execute_custom_task caps a info =
     (let custom_prompt =
            (case parameters info ''prompt'' of None \<Rightarrow> ''Please provide analysis'' | Some v \<Rightarrow> v)
      in chat caps a custom_prompt (session_id info))"

text \<open>The body of the \<^verbatim>\<open>try\<close> block of \<^verbatim>\<open>_execute_task\<close>, up to \<^verbatim>\<open>result\<close>.\<close>

definition run_handler :: "'a capabilities \<Rightarrow> nat \<Rightarrow> task_info \<Rightarrow> string + string" where
  "run_handler caps year info =
     (case make_agent caps (agent_type info) of
        Inl msg \<Rightarrow> Inl msg
      | Inr a \<Rightarrow>
          if task_type info = ''file_analysis'' then execute_file_analysis caps a info
          else if task_type info = ''audit_report'' then execute_audit_report caps a info
          else if task_type info = ''tax_calculation'' then execute_tax_calculation caps year a info
          else if task_type info = ''consultation'' then execute_consultation caps a info
          else execute_custom_task caps a info)"

text \<open>
  \<^verbatim>\<open>_execute_task\<close> in its two writes: \<open>mark_running\<close> is the record after the lines
  before the \<^verbatim>\<open>try\<close>, \<open>finish_task\<close> the record after the \<^verbatim>\<open>try\<close> block.
\<close>

definition mark_running :: "datetime \<Rightarrow> task_info \<Rightarrow> task_info" where
  "mark_running now info = info\<lparr>status := Running, started_at := Some now\<rparr>"

definition finish_task :: "'a capabilities \<Rightarrow> nat \<Rightarrow> datetime \<Rightarrow> task_info \<Rightarrow> task_info" where
  "finish_task caps year now info =
     (case run_handler caps year info of
        Inr r \<Rightarrow> info\<lparr>status := Completed, result := Some r, completed_at := Some now\<rparr>
      | Inl msg \<Rightarrow> info\<lparr>status := Failed, error := Some msg, failed_at := Some now\<rparr>)"

definition execute_task ::
  "'a capabilities \<Rightarrow> nat \<Rightarrow> datetime \<Rightarrow> datetime \<Rightarrow> TaskScheduler \<Rightarrow> string \<Rightarrow> TaskScheduler" where
  "execute_task caps year now_started now_ended s tid =
     (case tasks s tid of
        None \<Rightarrow> s
      | Some info \<Rightarrow>
          s\<lparr>tasks := (tasks s)(tid \<mapsto> finish_task caps year now_ended (mark_running now_started info))\<rparr>)"

definition get_task_status :: "TaskScheduler \<Rightarrow> string \<Rightarrow> task_info option" where
  "get_task_status s tid = tasks s tid"

text \<open>
  \<^verbatim>\<open>cancel_task\<close> and \<^verbatim>\<open>reschedule_task\<close>: whatever is raised inside is caught and
  turned into \<^verbatim>\<open>False\<close>; what had been changed before stays changed.
\<close>

definition cancel_task :: "datetime \<Rightarrow> TaskScheduler \<Rightarrow> string \<Rightarrow> bool \<times> TaskScheduler" where
  "cancel_task now s tid =
     (case tasks s tid of
        None \<Rightarrow> (False, s)
      | Some info \<Rightarrow>
          if status info = Scheduled then
            (case remove_job s tid of
               Inl msg \<Rightarrow> (False, s)
             | Inr s1 \<Rightarrow>
                 (True, s1\<lparr>tasks := (tasks s1)(tid \<mapsto>
                              info\<lparr>status := Cancelled, cancelled_at := Some now\<rparr>)\<rparr>))
          else (False, s))"

definition reschedule_task ::
  "(string \<Rightarrow> datetime option) \<Rightarrow> datetime \<Rightarrow> string option \<Rightarrow> TaskScheduler \<Rightarrow> string \<Rightarrow> string \<Rightarrow>
   bool \<times> TaskScheduler" where
  "reschedule_task fromisoformat now add_failure s tid new_schedule_time =
     (case tasks s tid of
        None \<Rightarrow> (False, s)
      | Some info \<Rightarrow>
          if status info \<noteq> Scheduled then (False, s)
          else
            (case fromisoformat (replace_Z new_schedule_time) of
               None \<Rightarrow> (False, s)
             | Some run_date \<Rightarrow>
                 (case remove_job s tid of
                    Inl msg \<Rightarrow> (False, s)
                  | Inr s1 \<Rightarrow>
                      (case add_job s1 tid add_failure of
                         Inl msg \<Rightarrow> (False, s1)
                       | Inr s2 \<Rightarrow>
                           (True, s2\<lparr>tasks := (tasks s2)(tid \<mapsto>
                                        info\<lparr>scheduled_for := run_date,
                                             rescheduled_at := Some now\<rparr>)\<rparr>)))))"

text \<open>The timer engine fires a pending job: the one-shot trigger is used up.\<close>

definition fire ::
  "'a capabilities \<Rightarrow> nat \<Rightarrow> datetime \<Rightarrow> datetime \<Rightarrow> TaskScheduler \<Rightarrow> string \<Rightarrow> TaskScheduler" where
  "fire caps year now_started now_ended s tid =
     execute_task caps year now_started now_ended (s\<lparr>jobs := jobs s - {tid}\<rparr>) tid"

text \<open>The scheduler between the two writes of \<^verbatim>\<open>_execute_task\<close>, for a fired job.\<close>

definition begin_task :: "datetime \<Rightarrow> TaskScheduler \<Rightarrow> string \<Rightarrow> TaskScheduler" where
  "begin_task now s tid =
     (case tasks s tid of
        None \<Rightarrow> s\<lparr>jobs := jobs s - {tid}\<rparr>
      | Some info \<Rightarrow> s\<lparr>jobs := jobs s - {tid}, tasks := (tasks s)(tid \<mapsto> mark_running now info)\<rparr>)"

text \<open>
  The operations as events, each with the inputs it takes from outside. A call of
  \<^verbatim>\<open>schedule_task\<close> draws an id that no job has yet (\<^verbatim>\<open>uuid.uuid4()\<close>); the engine
  fires only a job it holds.
\<close>

datatype event =
    Schedule string datetime datetime "string option"
             string string string "string option" "(string \<rightharpoonup> string) option"
  | Fire string nat datetime datetime
  | Cancel string datetime
  | Reschedule string string datetime "string option"

fun enabled :: "TaskScheduler \<Rightarrow> event \<Rightarrow> bool" where
  "enabled s (Schedule uuid4 now_run now_created add_failure tt sid aty stime ps) = (tasks s uuid4 = None)"
| "enabled s (Fire tid year now_started now_ended) = (tid \<in> jobs s)"
| "enabled s (Cancel tid now) = True"
| "enabled s (Reschedule tid new_time now add_failure) = True"

fun step ::
  "'a capabilities \<Rightarrow> (string \<Rightarrow> datetime option) \<Rightarrow> TaskScheduler \<Rightarrow> event \<Rightarrow> TaskScheduler" where
  "step caps fromisoformat s (Schedule uuid4 now_run now_created add_failure tt sid aty stime ps) =
     snd (schedule_task fromisoformat uuid4 now_run now_created add_failure s tt sid aty stime ps)"
| "step caps fromisoformat s (Fire tid year now_started now_ended) =
     fire caps year now_started now_ended s tid"
| "step caps fromisoformat s (Cancel tid now) = snd (cancel_task now s tid)"
| "step caps fromisoformat s (Reschedule tid new_time now add_failure) =
     snd (reschedule_task fromisoformat now add_failure s tid new_time)"

fun run_events ::
  "'a capabilities \<Rightarrow> (string \<Rightarrow> datetime option) \<Rightarrow> TaskScheduler \<Rightarrow> event list \<Rightarrow>
   TaskScheduler option" where
  "run_events caps fromisoformat s [] = Some s"
| "run_events caps fromisoformat s (ev # evs) =
     (if enabled s ev then run_events caps fromisoformat (step caps fromisoformat s ev) evs
      else None)"

definition status_of :: "TaskScheduler \<Rightarrow> string \<Rightarrow> status option" where
  "status_of s tid = map_option status (tasks s tid)"

text \<open>
  The statuses a job goes through during one event, every write to its record
  included: the record that \<^verbatim>\<open>schedule_task\<close> stores before it registers the
  timer, and the \<^verbatim>\<open>running\<close> that \<^verbatim>\<open>_execute_task\<close> writes before the handler runs.
\<close>

fun status_path ::
  "'a capabilities \<Rightarrow> (string \<Rightarrow> datetime option) \<Rightarrow> TaskScheduler \<Rightarrow> event \<Rightarrow> string \<Rightarrow>
   status option list" where
  "status_path caps fromisoformat s (Schedule uuid4 now_run now_created add_failure tt sid aty stime ps) tid =
     [status_of s tid,
      status_of (store_task s (new_task fromisoformat uuid4 now_run now_created tt sid aty stime ps)) tid,
      status_of (step caps fromisoformat s
                   (Schedule uuid4 now_run now_created add_failure tt sid aty stime ps)) tid]"
| "status_path caps fromisoformat s (Fire job year now_started now_ended) tid =
     [status_of s tid,
      status_of (begin_task now_started s job) tid,
      status_of (step caps fromisoformat s (Fire job year now_started now_ended)) tid]"
| "status_path caps fromisoformat s ev tid =
     [status_of s tid, status_of (step caps fromisoformat s ev) tid]"

text \<open>
  The state machine of a job as the specification draws it: a job is created
  \<^verbatim>\<open>scheduled\<close>; \<^verbatim>\<open>scheduled\<close> to \<^verbatim>\<open>running\<close> to \<^verbatim>\<open>completed\<close> or \<^verbatim>\<open>failed\<close>; \<^verbatim>\<open>scheduled\<close> to
  \<^verbatim>\<open>cancelled\<close>; otherwise the status stays as it is.
\<close>

definition lifecycle :: "status option \<Rightarrow> status option \<Rightarrow> bool" where
  "lifecycle a b \<longleftrightarrow>
     a = b
     \<or> a = None \<and> b = Some Scheduled
     \<or> a = Some Scheduled \<and> b = Some Running
     \<or> a = Some Running \<and> b = Some Completed
     \<or> a = Some Running \<and> b = Some Failed
     \<or> a = Some Scheduled \<and> b = Some Cancelled"

text \<open>The transition that \<^verbatim>\<open>schedule_task\<close> makes when \<^verbatim>\<open>add_job\<close> raises.\<close>

definition registration_failed :: "event \<Rightarrow> status option \<Rightarrow> status option \<Rightarrow> bool" where
  "registration_failed ev a b \<longleftrightarrow>
     (case ev of
        Schedule uuid4 now_run now_created add_failure tt sid aty stime ps \<Rightarrow>
          add_failure \<noteq> None \<and> a = Some Scheduled \<and> b = Some Failed
      | _ \<Rightarrow> False)"

text \<open>Every pending timer belongs to a job whose status is \<^verbatim>\<open>scheduled\<close>.\<close>

definition timers_scheduled :: "TaskScheduler \<Rightarrow> bool" where
  "timers_scheduled s \<longleftrightarrow> (\<forall>tid \<in> jobs s. status_of s tid = Some Scheduled)"

text \<open>Concrete inputs for the examples.\<close>

definition epoch :: datetime where
  "epoch = \<lparr>micros = 0, utcoffset = None\<rparr>"

definition example_parser :: "string \<Rightarrow> datetime option" where
  "example_parser st =
     (if st = ''1970-01-02T00:00:00'' then Some \<lparr>micros = 86400000000, utcoffset = None\<rparr>
      else None)"

definition echo_agent :: "unit capabilities" where
  "echo_agent =
     \<lparr>make_agent = (\<lambda>t. Inr ()),
      analyze_file = (\<lambda>a file_name file_path sid. Inr file_name),
      chat = (\<lambda>a prompt sid. Inr prompt)\<rparr>"

text \<open>
  One job scheduled with its timer registered; and the same job after a
  \<^verbatim>\<open>reschedule_task\<close> in which \<^verbatim>\<open>add_job\<close> raised: the old timer is removed, no new one
  is registered, and the record still says \<^verbatim>\<open>scheduled\<close>.
\<close>

definition one_job_example :: TaskScheduler where
  "one_job_example =
     snd (schedule_task example_parser ''job-1'' epoch epoch None new_scheduler
            ''consultation'' ''session-1'' ''Tax Agent'' None None)"

definition orphan_example :: TaskScheduler where
  "orphan_example =
     snd (reschedule_task example_parser epoch (Some ''store is down'') one_job_example
            ''job-1'' ''1970-01-02T00:00:00'')"

section \<open>Properties of the load balancer\<close>

lemma pool_of_set_pool [simp]:
  "pool_of (set_pool lb t p) t' = (if t' = t then p else pool_of lb t')"
  by (simp add: pool_of_def set_pool_def update_conv')

lemma set_pool_fields [simp]:
  "algorithm (set_pool lb t p) = algorithm lb"
  "round_robin_counters (set_pool lb t p) = round_robin_counters lb"
  "agent_weights (set_pool lb t p) = agent_weights lb"
  "max_connections_per_agent (set_pool lb t p) = max_connections_per_agent lb"
  by (simp_all add: set_pool_def)

lemma min_from_bound: "best < i \<Longrightarrow> min_from key xs best bk i < i + length xs"
proof (induction xs arbitrary: best bk i)
  case Nil
  then show ?case by simp
next
  case (Cons x xs)
  have "min_from key xs i (key x) (Suc i) < Suc i + length xs"
    by (rule Cons.IH) simp
  moreover have "min_from key xs best bk (Suc i) < Suc i + length xs"
    by (rule Cons.IH) (use Cons.prems in simp)
  ultimately show ?case by simp
qed

lemma py_min_bound:
  "xs \<noteq> [] \<Longrightarrow> \<exists>k. py_min key xs = Inr k \<and> k < length xs"
  using min_from_bound [of 0 1 key "tl xs" "key (hd xs)"]
  by (cases xs) (auto simp: py_min_def)

lemma wrr_walk_bound:
  "wrr_walk xs target cw i = Some k \<Longrightarrow> i \<le> k \<and> k < i + length xs"
proof (induction xs arbitrary: cw i)
  case Nil
  then show ?case by simp
next
  case (Cons x xs)
  show ?case
  proof (cases "target < cw + weight x")
    case True
    with Cons.prems show ?thesis by simp
  next
    case False
    with Cons.prems have "wrr_walk xs target (cw + weight x) (Suc i) = Some k" by simp
    from Cons.IH [OF this] show ?thesis by simp
  qed
qed

lemma nat_mod_less: "0 < n \<Longrightarrow> nat (c mod int n) < n"
  using pos_mod_bound [of "int n" c] pos_mod_sign [of "int n" c] by linarith

lemma select_instance_ok:
  assumes "instances \<noteq> []"
    and "algorithm lb = WEIGHTED_ROUND_ROBIN \<longrightarrow> sum_list (map weight instances) \<noteq> 0"
  shows "\<exists>k lb'. select_instance lb instances t = (Inr k, lb') \<and> k < length instances
           \<and> agent_pools lb' = agent_pools lb \<and> algorithm lb' = algorithm lb
           \<and> agent_weights lb' = agent_weights lb"
proof (cases "algorithm lb")
  case ROUND_ROBIN
  with assms show ?thesis
    by (simp add: select_instance_def round_robin_select_def Let_def nat_mod_less)
next
  case LEAST_CONNECTIONS
  with assms py_min_bound [of instances active_connections] show ?thesis
    by (auto simp: select_instance_def least_connections_select_def)
next
  case WEIGHTED_ROUND_ROBIN
  with assms wrr_walk_bound [of instances _ 0 0] show ?thesis
    by (auto simp: select_instance_def weighted_round_robin_select_def Let_def
             split: option.splits)
next
  case RESPONSE_TIME
  with assms py_min_bound [of instances avg_response_time] show ?thesis
    by (auto simp: select_instance_def response_time_select_def)
qed


lemma healthy_indices_append_fresh:
  "healthy_indices p = [] \<Longrightarrow> health_status x = ''healthy''
     \<Longrightarrow> healthy_indices (p @ [x]) = [length p]"
  by (auto simp: healthy_indices_def filter_empty_conv nth_append)

lemma healthy_indices_bound: "i \<in> set (healthy_indices p) \<Longrightarrow> i < length p"
  by (simp add: healthy_indices_def)

lemma healthy_indices_Nil [simp]: "healthy_indices [] = []"
  by (simp add: healthy_indices_def)

lemma fresh_healthy [simp]: "health_status (fresh_instance lb t a now) = ''healthy''"
  by (simp add: fresh_instance_def)

lemma create_ok:
  "fac t = Inr a \<Longrightarrow> create_agent_instance fac now lb t =
     (Inr (length (pool_of lb t)), set_pool lb t (pool_of lb t @ [fresh_instance lb t a now]))"
  by (simp add: create_agent_instance_def)

lemma acquire_no_healthy:
  assumes "fac t = Inr a" and "healthy_indices (pool_of lb t) = []"
  shows "acquire fac now lb t =
     (case select_instance (set_pool lb t (pool_of lb t @ [fresh_instance lb t a now]))
             [fresh_instance lb t a now] t of
        (Inl e, lb3) \<Rightarrow> (Inl e, lb3)
      | (Inr k, lb3) \<Rightarrow>
          (Inr ([length (pool_of lb t)] ! k),
           set_pool lb3 t ((pool_of lb3 t)[[length (pool_of lb t)] ! k :=
              used now (pool_of lb3 t ! ([length (pool_of lb t)] ! k))])))"
proof (cases "pool_of lb t = []")
  case True
  have "healthy_indices [fresh_instance lb t a now] = [0]"
    using healthy_indices_append_fresh [of "[]" "fresh_instance lb t a now"] by simp
  with True assms show ?thesis
    by (simp add: acquire_def create_ok Let_def split: prod.split sum.split)
next
  case False
  with assms show ?thesis
    by (simp add: acquire_def create_ok Let_def split: prod.split sum.split)
qed

lemma acquire_healthy:
  assumes "healthy_indices (pool_of lb t) \<noteq> []"
  shows "acquire fac now lb t =
     (case select_instance lb (map ((!) (pool_of lb t)) (healthy_indices (pool_of lb t))) t of
        (Inl e, lb3) \<Rightarrow> (Inl e, lb3)
      | (Inr k, lb3) \<Rightarrow>
          (Inr (healthy_indices (pool_of lb t) ! k),
           set_pool lb3 t ((pool_of lb3 t)[healthy_indices (pool_of lb t) ! k :=
              used now (pool_of lb3 t ! (healthy_indices (pool_of lb t) ! k))])))"
proof -
  from assms have "pool_of lb t \<noteq> []" by auto
  with assms show ?thesis
    by (simp add: acquire_def Let_def split: prod.split sum.split)
qed


lemma pool_of_cong: "agent_pools lb' = agent_pools lb \<Longrightarrow> pool_of lb' t = pool_of lb t"
  by (simp add: pool_of_def)

lemma sum_weights_ge_length:
  "\<forall>x \<in> set xs. 1 \<le> weight x \<Longrightarrow> int (length xs) \<le> sum_list (map weight xs)"
  by (induction xs) auto

lemma sum_weights_pos:
  "xs \<noteq> [] \<Longrightarrow> \<forall>x \<in> set xs. 1 \<le> weight x \<Longrightarrow> 0 < sum_list (map weight xs)"
  using sum_weights_ge_length [of xs] by (cases xs) auto

lemma fresh_weight_pos:
  "weights_ok lb t \<Longrightarrow> 1 \<le> weight (fresh_instance lb t a now)"
  by (simp add: weights_ok_def fresh_instance_def split: option.splits)

lemma used_fields [simp]:
  "agent (used now x) = agent x"
  "weight (used now x) = weight x"
  "health_status (used now x) = health_status x"
  "agent_id (used now x) = agent_id x"
  "total_requests (used now x) = total_requests x + 1"
  "active_connections (used now x) = active_connections x + 1"
  by (simp_all add: used_def)

lemma acquire_result:
  assumes fac: "fac t = Inr a"
    and w: "algorithm lb = WEIGHTED_ROUND_ROBIN \<longrightarrow> weights_ok lb t"
  shows "\<exists>i lb'. acquire fac now lb t = (Inr i, lb') \<and> i < length (pool_of lb' t)
           \<and> algorithm lb' = algorithm lb \<and> agent_weights lb' = agent_weights lb
           \<and> agent (pool_of lb' t ! i) = agent ((pool_of lb t @ [fresh_instance lb t a now]) ! i)
           \<and> (if healthy_indices (pool_of lb t) = []
                then pool_of lb' t = pool_of lb t @ [used now (fresh_instance lb t a now)]
                     \<and> i = length (pool_of lb t)
                else pool_of lb' t = (pool_of lb t)[i := used now (pool_of lb t ! i)]
                     \<and> i \<in> set (healthy_indices (pool_of lb t)))"
proof (cases "healthy_indices (pool_of lb t) = []")
  case True
  let ?f = "fresh_instance lb t a now"
  let ?lb2 = "set_pool lb t (pool_of lb t @ [?f])"
  have "algorithm ?lb2 = WEIGHTED_ROUND_ROBIN \<longrightarrow> sum_list (map weight [?f]) \<noteq> 0"
    using w fresh_weight_pos [of lb t a now] by auto
  from select_instance_ok [OF _ this, of t]
  obtain k lb3 where sel: "select_instance ?lb2 [?f] t = (Inr k, lb3)"
    and k: "k < 1" and pools: "agent_pools lb3 = agent_pools ?lb2"
    and alg: "algorithm lb3 = algorithm ?lb2" "agent_weights lb3 = agent_weights ?lb2"
    by auto
  have p3: "pool_of lb3 t = pool_of lb t @ [?f]"
    using pool_of_cong [OF pools, of t] by simp
  show ?thesis
    using True k acquire_no_healthy [of fac t a lb now] fac alg
    by (simp add: sel p3)
next
  case False
  let ?hs = "healthy_indices (pool_of lb t)"
  let ?ins = "map ((!) (pool_of lb t)) ?hs"
  have ne: "?ins \<noteq> []" using False by simp
  have "algorithm lb = WEIGHTED_ROUND_ROBIN \<longrightarrow> sum_list (map weight ?ins) \<noteq> 0"
  proof
    assume "algorithm lb = WEIGHTED_ROUND_ROBIN"
    with w have "\<forall>x \<in> set (pool_of lb t). 1 \<le> weight x" by (simp add: weights_ok_def)
    then have "\<forall>x \<in> set ?ins. 1 \<le> weight x"
      by (auto dest: healthy_indices_bound)
    from sum_weights_pos [OF ne this] show "sum_list (map weight ?ins) \<noteq> 0" by simp
  qed
  from select_instance_ok [OF ne this, of t]
  obtain k lb3 where sel: "select_instance lb ?ins t = (Inr k, lb3)"
    and k: "k < length ?hs" and pools: "agent_pools lb3 = agent_pools lb"
    and alg: "algorithm lb3 = algorithm lb" "agent_weights lb3 = agent_weights lb"
    by auto
  have p3: "pool_of lb3 t = pool_of lb t" by (rule pool_of_cong [OF pools])
  have mem: "?hs ! k \<in> set ?hs" using k by simp
  then have lt: "?hs ! k < length (pool_of lb t)" by (rule healthy_indices_bound)
  show ?thesis
    using False mem lt alg
    by (simp add: acquire_healthy [of lb t fac now] sel p3 nth_append)
qed

lemma mod_inj_window:
  assumes "0 < (W::int)" "j < nat W" "k < nat W" "(c + int j) mod W = (c + int k) mod W"
  shows "j = k"
proof (rule ccontr)
  assume ne: "j \<noteq> k"
  from assms(4) have "W dvd (c + int j) - (c + int k)"
    by (simp add: mod_eq_dvd_iff)
  then have d: "W dvd int j - int k" by simp
  have nz: "int j - int k \<noteq> 0" using ne by simp
  from dvd_imp_le_int [OF nz d] have "\<bar>W\<bar> \<le> \<bar>int j - int k\<bar>" .
  with assms(1-3) show False by linarith
qed

lemma mod_window_set:
  assumes "0 < (W::int)"
  shows "(\<lambda>k. (c + int k) mod W) ` {0..<nat W} = {0..<W}"
proof (rule card_subset_eq)
  show "finite {0..<W}" by simp
  show "(\<lambda>k. (c + int k) mod W) ` {0..<nat W} \<subseteq> {0..<W}"
    using assms by auto
  have "inj_on (\<lambda>k. (c + int k) mod W) {0..<nat W}"
    by (rule inj_onI) (use assms mod_inj_window in auto)
  then have "card ((\<lambda>k. (c + int k) mod W) ` {0..<nat W}) = nat W"
    by (simp add: card_image)
  then show "card ((\<lambda>k. (c + int k) mod W) ` {0..<nat W}) = card {0..<W}"
    by simp
qed


lemma wrr_walk_weights: "wrr_walk xs target cw i = weight_walk (map weight xs) target cw i"
  by (induction xs arbitrary: cw i) simp_all




lemma weight_walk_total_gen:
  assumes "\<forall>w \<in> set ws. 0 \<le> w" and "cw \<le> r" and "r < cw + sum_list ws"
  shows "\<exists>j < length ws. weight_walk ws r cw i = Some (i + j)"
  using assms
proof (induction ws arbitrary: cw i)
  case Nil
  then show ?case by simp
next
  case (Cons w ws)
  show ?case
  proof (cases "r < cw + w")
    case True
    then show ?thesis by simp
  next
    case False
    have "\<exists>j < length ws. weight_walk ws r (cw + w) (Suc i) = Some (Suc i + j)"
      by (rule Cons.IH) (use Cons.prems False in auto)
    then obtain j where "j < length ws"
      and "weight_walk ws r (cw + w) (Suc i) = Some (Suc i + j)" by blast
    with False show ?thesis
      by (intro exI [of _ "Suc j"]) simp
  qed
qed

lemma weight_walk_total:
  assumes "\<forall>w \<in> set ws. 0 \<le> w" and "0 \<le> r" and "r < sum_list ws"
  shows "\<exists>j < length ws. weight_walk ws r 0 0 = Some j"
  using weight_walk_total_gen [of ws 0 r 0] assms by simp

lemma pool_of_counters [simp]:
  "pool_of (lb\<lparr>round_robin_counters := f\<rparr>) t = pool_of lb t"
  by (simp add: pool_of_def)

lemma nth_update_field:
  "f x = f (p ! i) \<Longrightarrow> j < length p \<Longrightarrow> f (p[i := x] ! j) = f (p ! j)"
  by (cases "i = j") simp_all

lemma healthy_indices_update:
  "health_status x = health_status (p ! i) \<Longrightarrow> healthy_indices (p[i := x]) = healthy_indices p"
  unfolding healthy_indices_def
  by (auto simp: nth_update_field [where f = health_status] intro!: filter_cong)


lemma acquire_rr:
  assumes "algorithm lb = ROUND_ROBIN" and "healthy_indices (pool_of lb t) \<noteq> []"
  shows "acquire fac now lb t =
     (let hs = healthy_indices (pool_of lb t);
          c = round_robin_counters lb t;
          n = int (length hs);
          i = hs ! nat (c mod n)
      in (Inr i,
          set_pool (lb\<lparr>round_robin_counters := (round_robin_counters lb)(t := (c + 1) mod n)\<rparr>) t
            ((pool_of lb t)[i := used now (pool_of lb t ! i)])))"
  using assms
  by (simp add: acquire_healthy select_instance_def round_robin_select_def Let_def)

lemma acquire_wrr:
  assumes "algorithm lb = WEIGHTED_ROUND_ROBIN" and "healthy_indices (pool_of lb t) \<noteq> []"
    and "sum_list (healthy_weights (pool_of lb t)) \<noteq> 0"
    and "weight_walk (healthy_weights (pool_of lb t))
           (round_robin_counters lb t mod sum_list (healthy_weights (pool_of lb t))) 0 0 = Some j"
  shows "acquire fac now lb t =
     (let i = healthy_indices (pool_of lb t) ! j
      in (Inr i,
          set_pool (lb\<lparr>round_robin_counters :=
                        (round_robin_counters lb)(t := round_robin_counters lb t + 1)\<rparr>) t
            ((pool_of lb t)[i := used now (pool_of lb t ! i)])))"
  using assms
  by (simp add: acquire_healthy select_instance_def weighted_round_robin_select_def Let_def
        wrr_walk_weights healthy_weights_def healthy_instances_def)

lemma fst_acquire_run_Cons:
  "fst (acquire_run fac lb t (now # nows)) =
     fst (acquire fac now lb t) # fst (acquire_run fac (snd (acquire fac now lb t)) t nows)"
  by (simp split: prod.split)

lemma run_rr:
  assumes "algorithm lb = ROUND_ROBIN" and "healthy_indices (pool_of lb t) = hs" and "hs \<noteq> []"
  shows "fst (acquire_run fac lb t nows) =
           map (\<lambda>k. Inr (hs ! nat ((round_robin_counters lb t + int k) mod int (length hs))))
             [0..<length nows]"
  using assms
proof (induction nows arbitrary: lb)
  case Nil
  then show ?case by simp
next
  case (Cons now nows)
  let ?c = "round_robin_counters lb t"
  let ?n = "int (length hs)"
  let ?i = "hs ! nat (?c mod ?n)"
  let ?lb' = "set_pool (lb\<lparr>round_robin_counters := (round_robin_counters lb)(t := (?c + 1) mod ?n)\<rparr>) t
            ((pool_of lb t)[?i := used now (pool_of lb t ! ?i)])"
  have acq: "acquire fac now lb t = (Inr ?i, ?lb')"
    using acquire_rr [of lb t fac now] Cons.prems by (simp add: Let_def)
  have "fst (acquire_run fac ?lb' t nows) =
          map (\<lambda>k. Inr (hs ! nat ((round_robin_counters ?lb' t + int k) mod ?n))) [0..<length nows]"
    by (rule Cons.IH) (use Cons.prems in \<open>simp_all add: healthy_indices_update\<close>)
  also have "\<dots> = map (\<lambda>k. Inr (hs ! nat ((?c + int (Suc k)) mod ?n))) [0..<length nows]"
  proof -
    have "((?c + 1) mod ?n + int k) mod ?n = (?c + int (Suc k)) mod ?n" for k
    proof -
      have "((?c + 1) mod ?n + int k) mod ?n = ((?c + 1) + int k) mod ?n"
        by (rule mod_add_left_eq)
      also have "(?c + 1) + int k = ?c + int (Suc k)" by simp
      finally show ?thesis .
    qed
    then show ?thesis by simp
  qed
  finally have rest: "fst (acquire_run fac ?lb' t nows) =
          map (\<lambda>k. Inr (hs ! nat ((?c + int (Suc k)) mod ?n))) [0..<length nows]" .
  show ?case
    unfolding fst_acquire_run_Cons using acq rest
    by (simp add: map_upt_Suc del: upt_Suc)
qed




lemma healthy_indices_distinct: "distinct (healthy_indices p)"
  by (simp add: healthy_indices_def)



lemma healthy_weights_length [simp]: "length (healthy_weights p) = length (healthy_indices p)"
  by (simp add: healthy_weights_def healthy_instances_def)


lemma pos_weights_sum:
  assumes "\<forall>w \<in> set ws. (1::int) \<le> w" and "ws \<noteq> []"
  shows "0 < sum_list ws"
proof -
  have "int (length ws) \<le> sum_list ws"
    using assms(1) by (induction ws) auto
  with assms(2) show ?thesis by (cases ws) auto
qed

lemma snd_get_agent: "snd (get_agent fac now lb t) = snd (acquire fac now lb t)"
  by (simp add: get_agent_def split: prod.split sum.split)

lemma healthy_indices_append_used:
  "healthy_indices p = [] \<Longrightarrow> healthy_indices (p @ [used now (fresh_instance lb t a now')]) = [length p]"
  by (rule healthy_indices_append_fresh) simp_all

lemma cursor_no_healthy:
  assumes fac: "fac t = Inr a"
    and w: "algorithm lb = WEIGHTED_ROUND_ROBIN \<longrightarrow> weights_ok lb t"
    and nh: "healthy_indices (pool_of lb t) = []"
  shows "round_robin_counters (snd (acquire fac now lb t)) =
           (case algorithm lb of
              ROUND_ROBIN \<Rightarrow> (round_robin_counters lb)(t := 0)
            | WEIGHTED_ROUND_ROBIN \<Rightarrow> (round_robin_counters lb)(t := round_robin_counters lb t + 1)
            | _ \<Rightarrow> round_robin_counters lb)"
proof (cases "algorithm lb")
  case ROUND_ROBIN
  then show ?thesis
    by (simp add: acquire_no_healthy [of fac t a lb now] fac nh select_instance_def
          round_robin_select_def)
next
  case LEAST_CONNECTIONS
  then show ?thesis
    by (simp add: acquire_no_healthy [of fac t a lb now] fac nh select_instance_def
          least_connections_select_def py_min_def)
next
  case WEIGHTED_ROUND_ROBIN
  with w have "1 \<le> weight (fresh_instance lb t a now)"
    by (simp add: fresh_weight_pos)
  moreover from this
  have "round_robin_counters lb t mod weight (fresh_instance lb t a now)
          < weight (fresh_instance lb t a now)"
    by simp
  ultimately show ?thesis
    using WEIGHTED_ROUND_ROBIN
    by (simp add: acquire_no_healthy [of fac t a lb now] fac nh select_instance_def
          weighted_round_robin_select_def)
next
  case RESPONSE_TIME
  then show ?thesis
    by (simp add: acquire_no_healthy [of fac t a lb now] fac nh select_instance_def
          response_time_select_def py_min_def)
qed

lemma cursor_healthy:
  assumes w: "algorithm lb = WEIGHTED_ROUND_ROBIN \<longrightarrow> weights_ok lb t"
    and h: "healthy_indices (pool_of lb t) \<noteq> []"
  shows "round_robin_counters (snd (acquire fac now lb t)) =
           (case algorithm lb of
              ROUND_ROBIN \<Rightarrow> (round_robin_counters lb)
                 (t := (round_robin_counters lb t + 1) mod int (length (healthy_indices (pool_of lb t))))
            | WEIGHTED_ROUND_ROBIN \<Rightarrow> (round_robin_counters lb)(t := round_robin_counters lb t + 1)
            | _ \<Rightarrow> round_robin_counters lb)"
proof (cases "algorithm lb")
  case ROUND_ROBIN
  then show ?thesis
    using h by (simp add: acquire_rr Let_def)
next
  case LEAST_CONNECTIONS
  moreover from h obtain k where
    "py_min active_connections (map ((!) (pool_of lb t)) (healthy_indices (pool_of lb t))) = Inr k"
    using py_min_bound [of "map ((!) (pool_of lb t)) (healthy_indices (pool_of lb t))" active_connections]
    by auto
  ultimately show ?thesis
    using h by (simp add: acquire_healthy select_instance_def least_connections_select_def)
next
  case WEIGHTED_ROUND_ROBIN
  let ?ws = "healthy_weights (pool_of lb t)"
  from w WEIGHTED_ROUND_ROBIN have "\<forall>x \<in> set (pool_of lb t). 1 \<le> weight x"
    by (simp add: weights_ok_def)
  then have pos: "\<forall>w \<in> set ?ws. 1 \<le> w"
    by (auto simp: healthy_weights_def healthy_instances_def dest: healthy_indices_bound)
  have ne: "?ws \<noteq> []" using h by (simp add: healthy_weights_def healthy_instances_def)
  have W: "0 < sum_list ?ws" by (rule pos_weights_sum [OF pos ne])
  have nn: "\<forall>w \<in> set ?ws. 0 \<le> w" using pos by auto
  from weight_walk_total [OF nn, of "round_robin_counters lb t mod sum_list ?ws"] W
  obtain j where "weight_walk ?ws (round_robin_counters lb t mod sum_list ?ws) 0 0 = Some j"
    by auto
  from acquire_wrr [OF WEIGHTED_ROUND_ROBIN h _ this, of fac now] W WEIGHTED_ROUND_ROBIN
  show ?thesis by (simp add: Let_def)
next
  case RESPONSE_TIME
  moreover from h obtain k where
    "py_min avg_response_time (map ((!) (pool_of lb t)) (healthy_indices (pool_of lb t))) = Inr k"
    using py_min_bound [of "map ((!) (pool_of lb t)) (healthy_indices (pool_of lb t))" avg_response_time]
    by auto
  ultimately show ?thesis
    using h by (simp add: acquire_healthy select_instance_def response_time_select_def)
qed

lemma map_field_update: "f x = f (p ! i) \<Longrightarrow> map f (p[i := x]) = map f p"
  by (rule nth_equalityI) (simp_all add: nth_update_field)

lemma get_agent_healthy_stable:
  assumes "fac t = Inr a"
    and "algorithm lb = WEIGHTED_ROUND_ROBIN \<longrightarrow> weights_ok lb t"
    and "healthy_indices (pool_of lb t) \<noteq> []"
  shows "healthy_indices (pool_of (snd (get_agent fac now lb t)) t) = healthy_indices (pool_of lb t)
         \<and> map weight (pool_of (snd (get_agent fac now lb t)) t) = map weight (pool_of lb t)
         \<and> algorithm (snd (get_agent fac now lb t)) = algorithm lb"
proof -
  from acquire_result [of fac t a lb now] assms
  obtain i lb' where acq: "acquire fac now lb t = (Inr i, lb')"
    and alg: "algorithm lb' = algorithm lb"
    and p: "pool_of lb' t = (pool_of lb t)[i := used now (pool_of lb t ! i)]"
    by auto
  have "map weight ((pool_of lb t)[i := used now (pool_of lb t ! i)]) = map weight (pool_of lb t)"
    by (rule map_field_update) simp
  then show ?thesis
    using acq p alg by (simp add: snd_get_agent healthy_indices_update)
qed

subsection \<open>Pool sizes\<close>

lemma keys_set_pool: "fst ` set (agent_pools (set_pool lb t p)) = insert t (fst ` set (agent_pools lb))"
  by (simp add: set_pool_def dom_update)

lemma pools_nonempty_cong:
  "agent_pools lb' = agent_pools lb \<Longrightarrow> pools_nonempty lb' = pools_nonempty lb"
  by (simp add: pools_nonempty_def pool_of_def)

lemma pools_nonempty_set_pool:
  "pools_nonempty lb \<Longrightarrow> p \<noteq> [] \<Longrightarrow> pools_nonempty (set_pool lb t p)"
  by (simp add: pools_nonempty_def keys_set_pool)

lemma key_of_pool: "pool_of lb t \<noteq> [] \<Longrightarrow> t \<in> fst ` set (agent_pools lb)"
  by (auto simp: pool_of_def split: option.splits dest: map_of_SomeD intro: rev_image_eqI)

lemma create_cases:
  "create_agent_instance fac now lb t = (Inl e, lb') \<Longrightarrow> lb' = lb"
  "create_agent_instance fac now lb t = (Inr i, lb') \<Longrightarrow>
     \<exists>x. lb' = set_pool lb t (pool_of lb t @ [x]) \<and> i = length (pool_of lb t)"
  by (auto simp: create_agent_instance_def split: sum.splits)

lemma create_pools_nonempty:
  "pools_nonempty lb \<Longrightarrow> pools_nonempty (snd (create_agent_instance fac now lb t))"
  by (cases "fac t") (simp_all add: create_agent_instance_def pools_nonempty_set_pool)

lemma select_instance_pools:
  "agent_pools (snd (select_instance lb ins t)) = agent_pools lb"
  by (cases "algorithm lb")
     (simp_all add: select_instance_def round_robin_select_def weighted_round_robin_select_def
        Let_def split: option.split)


lemma create_pool_nonempty:
  "create_agent_instance fac now lb t = (Inr i, lb') \<Longrightarrow> pool_of lb' t \<noteq> []"
  by (auto dest: create_cases(2))

lemma acquire_pools_nonempty:
  assumes inv: "pools_nonempty lb"
  shows "pools_nonempty (snd (acquire fac now lb t))"
proof -
  obtain r1 lb1 where c1:
    "(if pool_of lb t = [] then create_agent_instance fac now lb t else (Inr 0, lb)) = (r1, lb1)"
    by (cases "if pool_of lb t = [] then create_agent_instance fac now lb t else (Inr 0, lb)")
  have inv1: "pools_nonempty lb1"
    using c1 inv create_pools_nonempty [OF inv, of fac now t] by (auto split: if_splits)
  show ?thesis
  proof (cases r1)
    case (Inl e)
    with c1 inv1 show ?thesis by (simp add: acquire_def)
  next
    case (Inr i1)
    have ne1: "pool_of lb1 t \<noteq> []"
      using c1 Inr create_pool_nonempty [of fac now lb t i1 lb1] by (auto split: if_splits)
    obtain r2 lb2 where c2:
      "(if healthy_indices (pool_of lb1 t) = []
        then (case create_agent_instance fac now lb1 t of
                (Inl e, lb2) \<Rightarrow> (Inl e, lb2)
              | (Inr i, lb2) \<Rightarrow> (Inr [i], lb2))
        else (Inr (healthy_indices (pool_of lb1 t)), lb1)) = (r2, lb2)"
      by (cases "if healthy_indices (pool_of lb1 t) = []
        then (case create_agent_instance fac now lb1 t of
                (Inl e, lb2) \<Rightarrow> (Inl e, lb2)
              | (Inr i, lb2) \<Rightarrow> (Inr [i], lb2))
        else (Inr (healthy_indices (pool_of lb1 t)), lb1)")
    have lb2: "lb2 = lb1 \<or> lb2 = snd (create_agent_instance fac now lb1 t)"
      using c2 by (auto split: if_splits prod.splits sum.splits)
    have inv2: "pools_nonempty lb2"
      using lb2 inv1 create_pools_nonempty [OF inv1, of fac now t] by auto
    have ne2: "pool_of lb2 t \<noteq> []"
    proof (cases "lb2 = lb1")
      case True
      with ne1 show ?thesis by simp
    next
      case False
      with lb2 have "lb2 = snd (create_agent_instance fac now lb1 t)" by simp
      with False show ?thesis
        by (cases "create_agent_instance fac now lb1 t"; cases "fst (create_agent_instance fac now lb1 t)")
           (auto dest: create_cases)
    qed
    show ?thesis
    proof (cases r2)
      case (Inl e)
      with c1 c2 Inr inv2 show ?thesis by (simp add: acquire_def)
    next
      case (Inr idxs)
      obtain r3 lb3 where c3: "select_instance lb2 (map ((!) (pool_of lb2 t)) idxs) t = (r3, lb3)"
        by (cases "select_instance lb2 (map ((!) (pool_of lb2 t)) idxs) t")
      have pools3: "agent_pools lb3 = agent_pools lb2"
        using select_instance_pools [of lb2 "map ((!) (pool_of lb2 t)) idxs" t] c3 by simp
      have inv3: "pools_nonempty lb3"
        using inv2 pools_nonempty_cong [OF pools3] by simp
      have ne3: "pool_of lb3 t \<noteq> []"
        using ne2 pool_of_cong [OF pools3, of t] by simp
      show ?thesis
      proof (cases r3)
        case (Inl e)
        with c1 c2 c3 \<open>r1 = Inr i1\<close> \<open>r2 = Inr idxs\<close> inv3 show ?thesis
          by (simp add: acquire_def)
      next
        case (Inr k)
        have "pools_nonempty (set_pool lb3 t ((pool_of lb3 t)[idxs ! k :=
                 used now (pool_of lb3 t ! (idxs ! k))]))"
          by (rule pools_nonempty_set_pool [OF inv3]) (use ne3 in simp)
        with c1 c2 c3 \<open>r1 = Inr i1\<close> \<open>r2 = Inr idxs\<close> Inr show ?thesis
          by (simp add: acquire_def Let_def)
      qed
    qed
  qed
qed


lemma add_agent_instance_pool:
  "pool_of (snd (add_agent_instance fac now lb t w)) t' =
     (case fac t of
        Inl e \<Rightarrow> pool_of lb t'
      | Inr a \<Rightarrow> if t' = t then pool_of lb t @ [(fresh_instance lb t a now)\<lparr>weight := w\<rparr>]
                 else pool_of lb t')"
  by (cases "fac t") (simp_all add: add_agent_instance_def create_agent_instance_def)

lemma add_agent_instance_keys:
  "fst ` set (agent_pools (snd (add_agent_instance fac now lb t w)))
     \<subseteq> insert t (fst ` set (agent_pools lb))"
  by (cases "fac t")
     (auto simp: add_agent_instance_def create_agent_instance_def keys_set_pool)

lemma add_agent_instance_nonempty:
  assumes "pools_nonempty lb"
  shows "pools_nonempty (snd (add_agent_instance fac now lb t w))"
  unfolding pools_nonempty_def
proof
  fix t' assume k: "t' \<in> fst ` set (agent_pools (snd (add_agent_instance fac now lb t w)))"
  show "pool_of (snd (add_agent_instance fac now lb t w)) t' \<noteq> []"
  proof (cases "fac t")
    case (Inl e)
    then have "snd (add_agent_instance fac now lb t w) = lb"
      by (simp add: add_agent_instance_def create_agent_instance_def)
    with k assms show ?thesis by (auto simp: pools_nonempty_def)
  next
    case (Inr a)
    show ?thesis
    proof (cases "t' = t")
      case True
      with Inr show ?thesis by (simp add: add_agent_instance_pool)
    next
      case False
      with k add_agent_instance_keys [of fac now lb t w]
      have "t' \<in> fst ` set (agent_pools lb)" by auto
      with assms have "pool_of lb t' \<noteq> []"
        by (auto simp: pools_nonempty_def)
      with False Inr show ?thesis
        by (simp add: add_agent_instance_pool)
    qed
  qed
qed

lemma scale_up_loop_nonempty:
  "pools_nonempty lb \<Longrightarrow> pools_nonempty (snd (scale_up_loop fac now lb t k))"
proof (induction k arbitrary: lb)
  case 0
  then show ?case by simp
next
  case (Suc k)
  obtain r lb' where a: "add_agent_instance fac now lb t 1 = (r, lb')"
    by (cases "add_agent_instance fac now lb t 1")
  have inv': "pools_nonempty lb'"
    using add_agent_instance_nonempty [OF Suc.prems, of fac now t 1] a by simp
  show ?case
  proof (cases r)
    case (Inl e)
    with a inv' show ?thesis by simp
  next
    case (Inr x)
    with a Suc.IH [OF inv'] show ?thesis by simp
  qed
qed

lemma scale_up_loop_length:
  "fac t = Inr a \<Longrightarrow>
     length (pool_of (snd (scale_up_loop fac now lb t k)) t) = length (pool_of lb t) + k"
proof (induction k arbitrary: lb)
  case 0
  then show ?case by simp
next
  case (Suc k)
  obtain r lb' where ad: "add_agent_instance fac now lb t 1 = (r, lb')"
    by (cases "add_agent_instance fac now lb t 1")
  from Suc.prems have r: "\<exists>x. r = Inr x"
    using ad by (auto simp: add_agent_instance_def create_agent_instance_def Let_def)
  have "length (pool_of lb' t) = length (pool_of lb t) + 1"
    using add_agent_instance_pool [of fac now lb t 1 t] ad Suc.prems by simp
  with Suc.IH [OF Suc.prems, of lb'] r ad show ?case by auto
qed

lemma scale_up_loop_pools:
  "length (pool_of lb t') \<le> length (pool_of (snd (scale_up_loop fac now lb t k)) t')
   \<and> length (pool_of (snd (scale_up_loop fac now lb t k)) t') \<le> length (pool_of lb t') + k
   \<and> (t' \<noteq> t \<longrightarrow> pool_of (snd (scale_up_loop fac now lb t k)) t' = pool_of lb t')"
proof (induction k arbitrary: lb)
  case 0
  then show ?case by simp
next
  case (Suc k)
  obtain r lb' where ad: "add_agent_instance fac now lb t 1 = (r, lb')"
    by (cases "add_agent_instance fac now lb t 1")
  have step: "length (pool_of lb t') \<le> length (pool_of lb' t')
     \<and> length (pool_of lb' t') \<le> length (pool_of lb t') + 1
     \<and> (t' \<noteq> t \<longrightarrow> pool_of lb' t' = pool_of lb t')"
    using add_agent_instance_pool [of fac now lb t 1 t'] ad
    by (cases "fac t") auto
  show ?case
  proof (cases r)
    case (Inl e)
    with ad step show ?thesis by auto
  next
    case (Inr x)
    with ad step Suc.IH [of lb'] show ?thesis by auto
  qed
qed

lemma remove_by_id_length: "remove_by_id aid p = Some p' \<Longrightarrow> Suc (length p') = length p"
  by (induction p arbitrary: p') (auto split: if_splits)

lemma remove_agent_instance_pool:
  "length (pool_of (snd (remove_agent_instance lb t aid)) t) \<le> length (pool_of lb t)
   \<and> length (pool_of lb t) \<le> Suc (length (pool_of (snd (remove_agent_instance lb t aid)) t))
   \<and> (t' \<noteq> t \<longrightarrow> pool_of (snd (remove_agent_instance lb t aid)) t' = pool_of lb t')
   \<and> fst ` set (agent_pools (snd (remove_agent_instance lb t aid))) = fst ` set (agent_pools lb)"
proof (cases "map_of (agent_pools lb) t")
  case None
  then show ?thesis by (simp add: remove_agent_instance_def)
next
  case (Some p)
  then have p: "pool_of lb t = p" by (simp add: pool_of_def)
  from Some have key: "t \<in> fst ` set (agent_pools lb)"
    by (auto dest: map_of_SomeD intro: rev_image_eqI)
  show ?thesis
  proof (cases "remove_by_id aid p")
    case None
    with Some show ?thesis by (simp add: remove_agent_instance_def)
  next
    case (Some p')
    with \<open>map_of (agent_pools lb) t = Some p\<close> remove_by_id_length [OF Some] p key
    show ?thesis
      by (auto simp: remove_agent_instance_def keys_set_pool)
  qed
qed


lemma fold_remove_pool:
  fixes srt :: "'a AgentInstance list"
  defines "F \<equiv> (\<lambda>t i lb'. if i < length srt
                             then snd (remove_agent_instance lb' t (agent_id (srt ! i))) else lb')"
  shows "length (pool_of lb t) \<le> length (pool_of (fold (F t) ks lb) t) + length ks
         \<and> length (pool_of (fold (F t) ks lb) t) \<le> length (pool_of lb t)
         \<and> (t' \<noteq> t \<longrightarrow> pool_of (fold (F t) ks lb) t' = pool_of lb t')
         \<and> fst ` set (agent_pools (fold (F t) ks lb)) = fst ` set (agent_pools lb)"
proof (induction ks arbitrary: lb)
  case Nil
  then show ?case by simp
next
  case (Cons k ks)
  have step: "length (pool_of (F t k lb) t) \<le> length (pool_of lb t)
     \<and> length (pool_of lb t) \<le> Suc (length (pool_of (F t k lb) t))
     \<and> (t' \<noteq> t \<longrightarrow> pool_of (F t k lb) t' = pool_of lb t')
     \<and> fst ` set (agent_pools (F t k lb)) = fst ` set (agent_pools lb)"
    using remove_agent_instance_pool [of lb t "agent_id (srt ! k)" t']
    by (simp add: F_def)
  from Cons.IH [of "F t k lb"] step show ?case
    by (simp del: fold_simps add: fold_simps(2))
qed

lemma scale_down_pool:
  "(pool_of lb t \<noteq> [] \<longrightarrow> pool_of (scale_down lb t n) t \<noteq> [])
   \<and> length (pool_of (scale_down lb t n) t) \<le> length (pool_of lb t)
   \<and> (t' \<noteq> t \<longrightarrow> pool_of (scale_down lb t n) t' = pool_of lb t')
   \<and> fst ` set (agent_pools (scale_down lb t n)) = fst ` set (agent_pools lb)"
proof (cases "map_of (agent_pools lb) t")
  case None
  then show ?thesis by (simp add: scale_down_def)
next
  case (Some p)
  then have p: "pool_of lb t = p" by (simp add: pool_of_def)
  show ?thesis
  proof (cases "int (length p) \<le> n")
    case True
    with Some show ?thesis by (simp add: scale_down_def)
  next
    case False
    let ?srt = "sort_key active_connections p"
    let ?F = "\<lambda>i lb'. if i < length ?srt
                 then snd (remove_agent_instance lb' t (agent_id (?srt ! i))) else lb'"
    have sd: "scale_down lb t n = fold ?F [0..<nat n] lb"
      using Some False by (simp add: scale_down_def Let_def)
    from fold_remove_pool [of lb t ?srt "[0..<nat n]" t']
    have f: "length (pool_of lb t) \<le> length (pool_of (fold ?F [0..<nat n] lb) t) + nat n"
      "length (pool_of (fold ?F [0..<nat n] lb) t) \<le> length (pool_of lb t)"
      "t' \<noteq> t \<longrightarrow> pool_of (fold ?F [0..<nat n] lb) t' = pool_of lb t'"
      "fst ` set (agent_pools (fold ?F [0..<nat n] lb)) = fst ` set (agent_pools lb)"
      by simp_all
    from False have "p \<noteq> [] \<longrightarrow> nat n < length p"
      by (cases "0 \<le> n") (auto simp: nat_less_iff)
    with p f(1) have "pool_of lb t \<noteq> [] \<longrightarrow> 0 < length (pool_of (fold ?F [0..<nat n] lb) t)"
      by auto
    with f show ?thesis unfolding sd by simp
  qed
qed

lemma scale_down_nonempty:
  assumes "pools_nonempty lb"
  shows "pools_nonempty (scale_down lb t n)"
  unfolding pools_nonempty_def
proof
  fix t' assume "t' \<in> fst ` set (agent_pools (scale_down lb t n))"
  with scale_down_pool [of lb t n t'] have "t' \<in> fst ` set (agent_pools lb)" by simp
  with assms have "pool_of lb t' \<noteq> []" by (auto simp: pools_nonempty_def)
  with scale_down_pool [of lb t n t'] show "pool_of (scale_down lb t n) t' \<noteq> []"
    by (cases "t' = t") auto
qed

lemma scale_up_nonempty:
  "pools_nonempty lb \<Longrightarrow> pools_nonempty (snd (scale_up fac now lb t n))"
  by (simp add: scale_up_def scale_up_loop_nonempty)

lemma auto_scale_pool_props:
  "length (pool_of (snd (auto_scale_pool fac now lb t)) t') \<le> max 5 (length (pool_of lb t'))
   \<and> (pools_nonempty lb \<longrightarrow> pools_nonempty (snd (auto_scale_pool fac now lb t)))"
proof -
  have up: "length (pool_of (snd (scale_up fac now lb t 1)) t') \<le> length (pool_of lb t') + 1"
    "t' \<noteq> t \<longrightarrow> pool_of (snd (scale_up fac now lb t 1)) t' = pool_of lb t'"
    using scale_up_loop_pools [of lb t' fac now t 1] by (simp_all add: scale_up_def)
  have down: "length (pool_of (scale_down lb t 1) t') \<le> length (pool_of lb t')"
    using scale_down_pool [of lb t 1 t'] by (cases "t' = t") auto
  have len: "length (pool_of (snd (auto_scale_pool fac now lb t)) t') \<le> max 5 (length (pool_of lb t'))"
  proof (cases "t' = t")
    case True
    with up(1) down show ?thesis
      by (auto simp: auto_scale_pool_def Let_def)
  next
    case False
    with up(2) scale_down_pool [of lb t 1 t'] show ?thesis
      by (auto simp: auto_scale_pool_def Let_def)
  qed
  have inv: "pools_nonempty lb \<longrightarrow> pools_nonempty (snd (auto_scale_pool fac now lb t))"
    by (auto simp: auto_scale_pool_def Let_def scale_up_nonempty scale_down_nonempty)
  from len inv show ?thesis ..
qed

lemma auto_scale_loop_props:
  "length (pool_of (snd (auto_scale_loop fac now lb ts)) t') \<le> max 5 (length (pool_of lb t'))
   \<and> (pools_nonempty lb \<longrightarrow> pools_nonempty (snd (auto_scale_loop fac now lb ts)))"
proof (induction ts arbitrary: lb)
  case Nil
  then show ?case by simp
next
  case (Cons t ts)
  obtain r lb' where a: "auto_scale_pool fac now lb t = (r, lb')"
    by (cases "auto_scale_pool fac now lb t")
  from auto_scale_pool_props [of fac now lb t t'] a
  have step: "length (pool_of lb' t') \<le> max 5 (length (pool_of lb t'))"
    "pools_nonempty lb \<longrightarrow> pools_nonempty lb'"
    by simp_all
  show ?case
  proof (cases r)
    case (Inl e)
    with a step show ?thesis by simp
  next
    case (Inr u)
    from Cons.IH [of lb'] step a Inr show ?thesis by auto
  qed
qed

lemma apply_op_nonempty:
  "pools_nonempty lb \<Longrightarrow> pools_nonempty (apply_op fac now lb op)"
proof (cases op)
  case (ScaleUp t n)
  assume "pools_nonempty lb"
  with ScaleUp show ?thesis by (simp add: scale_up_nonempty)
next
  case (ScaleDown t n)
  assume "pools_nonempty lb"
  with ScaleDown show ?thesis by (simp add: scale_down_nonempty)
next
  case AutoScale
  assume "pools_nonempty lb"
  with AutoScale auto_scale_loop_props [of fac now lb "map fst (agent_pools lb)"] show ?thesis
    by (simp add: auto_scale_def)
next
  case (Acquire t)
  assume "pools_nonempty lb"
  with Acquire show ?thesis by (simp add: snd_get_agent acquire_pools_nonempty)
qed

lemma run_ops_nonempty:
  "pools_nonempty lb \<Longrightarrow> pools_nonempty (run_ops fac now lb ops)"
  by (induction ops arbitrary: lb) (simp_all add: apply_op_nonempty)

subsection \<open>Weights\<close>

text \<open>
  No operation of the balancer that creates, picks or removes instances produces a
  weight below 1: the balancer built by \<^verbatim>\<open>__init__\<close> has weights of at least 1, and
  \<^verbatim>\<open>scale_up\<close>, \<^verbatim>\<open>scale_down\<close>, \<^verbatim>\<open>auto_scale\<close> and \<^verbatim>\<open>get_agent\<close> keep them so.
\<close>

lemma weights_ok_cong:
  "agent_pools lb' = agent_pools lb \<Longrightarrow> agent_weights lb' = agent_weights lb
     \<Longrightarrow> weights_ok lb' t = weights_ok lb t"
  by (simp add: weights_ok_def pool_of_def)

lemma weights_ok_set_pool:
  "weights_ok lb t' \<Longrightarrow> (t' = t \<Longrightarrow> \<forall>x \<in> set p. 1 \<le> weight x)
     \<Longrightarrow> weights_ok (set_pool lb t p) t'"
  by (auto simp: weights_ok_def)

lemma create_weights_ok:
  assumes "\<forall>t'. weights_ok lb t'"
  shows "weights_ok (snd (create_agent_instance fac now lb t)) t'"
proof (cases "fac t")
  case (Inl e)
  with assms show ?thesis by (simp add: create_agent_instance_def)
next
  case (Inr a)
  have "\<forall>x \<in> set (pool_of lb t @ [fresh_instance lb t a now]). 1 \<le> weight x"
    using assms fresh_weight_pos [of lb t a now] by (auto simp: weights_ok_def)
  with assms Inr show ?thesis
    by (simp add: create_agent_instance_def weights_ok_set_pool)
qed

lemma add_agent_instance_weights_ok:
  assumes "\<forall>t'. weights_ok lb t'"
  shows "weights_ok (snd (add_agent_instance fac now lb t 1)) t'"
proof -
  have w: "agent_weights (snd (add_agent_instance fac now lb t 1)) = agent_weights lb"
    by (cases "fac t") (simp_all add: add_agent_instance_def create_agent_instance_def)
  have "\<forall>x \<in> set (pool_of (snd (add_agent_instance fac now lb t 1)) t'). 1 \<le> weight x"
    using assms add_agent_instance_pool [of fac now lb t 1 t']
    by (cases "fac t") (auto simp: weights_ok_def)
  with assms w show ?thesis by (simp add: weights_ok_def)
qed

lemma scale_up_loop_weights_ok:
  "\<forall>t'. weights_ok lb t' \<Longrightarrow> \<forall>t'. weights_ok (snd (scale_up_loop fac now lb t k)) t'"
proof (induction k arbitrary: lb)
  case 0
  then show ?case by simp
next
  case (Suc k)
  obtain r lb' where a: "add_agent_instance fac now lb t 1 = (r, lb')"
    by (cases "add_agent_instance fac now lb t 1")
  have ok': "\<forall>t'. weights_ok lb' t'"
    using add_agent_instance_weights_ok [OF Suc.prems, of fac now t] a by simp
  show ?case
  proof (cases r)
    case (Inl e)
    with a ok' show ?thesis by simp
  next
    case (Inr x)
    with a Suc.IH [OF ok'] show ?thesis by simp
  qed
qed

lemma remove_by_id_subset: "remove_by_id aid p = Some p' \<Longrightarrow> set p' \<subseteq> set p"
  by (induction p arbitrary: p') (auto split: if_splits)

lemma remove_agent_instance_weights_ok:
  assumes "\<forall>t'. weights_ok lb t'"
  shows "weights_ok (snd (remove_agent_instance lb t aid)) t'"
proof (cases "map_of (agent_pools lb) t")
  case None
  with assms show ?thesis by (simp add: remove_agent_instance_def)
next
  case (Some p)
  then have p: "pool_of lb t = p" by (simp add: pool_of_def)
  show ?thesis
  proof (cases "remove_by_id aid p")
    case None
    with Some assms show ?thesis by (simp add: remove_agent_instance_def)
  next
    case (Some p')
    from remove_by_id_subset [OF Some] assms p
    have "\<forall>x \<in> set p'. 1 \<le> weight x" by (auto simp: weights_ok_def)
    with assms Some \<open>map_of (agent_pools lb) t = Some p\<close> show ?thesis
      by (simp add: remove_agent_instance_def weights_ok_set_pool)
  qed
qed

lemma fold_remove_weights_ok:
  "\<forall>t'. weights_ok lb t' \<Longrightarrow>
     \<forall>t'. weights_ok (fold (\<lambda>i lb'. if P i then snd (remove_agent_instance lb' t (g i)) else lb')
                         ks lb) t'"
proof (induction ks arbitrary: lb)
  case Nil
  then show ?case by simp
next
  case (Cons k ks)
  have "\<forall>t'. weights_ok (if P k then snd (remove_agent_instance lb t (g k)) else lb) t'"
    using Cons.prems remove_agent_instance_weights_ok [OF Cons.prems] by simp
  from Cons.IH [OF this] show ?case by simp
qed

lemma scale_down_weights_ok:
  assumes "\<forall>t'. weights_ok lb t'"
  shows "\<forall>t'. weights_ok (scale_down lb t n) t'"
proof (cases "map_of (agent_pools lb) t")
  case None
  with assms show ?thesis by (simp add: scale_down_def)
next
  case (Some p)
  show ?thesis
  proof (cases "int (length p) \<le> n")
    case True
    with Some assms show ?thesis by (simp add: scale_down_def)
  next
    case False
    with Some show ?thesis
      unfolding scale_down_def Let_def
      using fold_remove_weights_ok [OF assms,
        of "\<lambda>i. i < length (sort_key active_connections p)" t
           "\<lambda>i. agent_id (sort_key active_connections p ! i)" "[0..<nat n]"]
      by (simp del: length_sort)
  qed
qed

lemma select_instance_weights:
  "agent_weights (snd (select_instance lb ins t)) = agent_weights lb"
  by (cases "algorithm lb")
     (simp_all add: select_instance_def round_robin_select_def weighted_round_robin_select_def
        Let_def split: option.split)


lemma scale_up_weights_ok:
  "\<forall>t'. weights_ok lb t' \<Longrightarrow> \<forall>t'. weights_ok (snd (scale_up fac now lb t n)) t'"
  by (simp add: scale_up_def scale_up_loop_weights_ok)

lemma auto_scale_pool_cases:
  "snd (auto_scale_pool fac now lb t) = lb
   \<or> snd (auto_scale_pool fac now lb t) = snd (scale_up fac now lb t 1)
   \<or> snd (auto_scale_pool fac now lb t) = scale_down lb t 1"
  by (simp add: auto_scale_pool_def Let_def)

lemma auto_scale_pool_weights_ok:
  assumes "\<forall>t'. weights_ok lb t'"
  shows "\<forall>t'. weights_ok (snd (auto_scale_pool fac now lb t)) t'"
  using auto_scale_pool_cases [of fac now lb t] assms
    scale_up_weights_ok [OF assms, of fac now t 1] scale_down_weights_ok [OF assms, of t 1]
  by metis

lemma auto_scale_loop_weights_ok:
  "\<forall>t'. weights_ok lb t' \<Longrightarrow> \<forall>t'. weights_ok (snd (auto_scale_loop fac now lb ts)) t'"
proof (induction ts arbitrary: lb)
  case Nil
  then show ?case by simp
next
  case (Cons t ts)
  obtain r lb' where a: "auto_scale_pool fac now lb t = (r, lb')"
    by (cases "auto_scale_pool fac now lb t")
  have ok': "\<forall>t'. weights_ok lb' t'"
    using auto_scale_pool_weights_ok [OF Cons.prems, of fac now t] a by simp
  show ?case
  proof (cases r)
    case (Inl e)
    with a ok' show ?thesis by simp
  next
    case (Inr u)
    with a Cons.IH [OF ok'] show ?thesis by simp
  qed
qed

lemma acquire_weights_ok:
  assumes ok: "\<forall>t'. weights_ok lb t'"
  shows "\<forall>t'. weights_ok (snd (acquire fac now lb t)) t'"
proof -
  obtain r1 lb1 where c1:
    "(if pool_of lb t = [] then create_agent_instance fac now lb t else (Inr 0, lb)) = (r1, lb1)"
    by (cases "if pool_of lb t = [] then create_agent_instance fac now lb t else (Inr 0, lb)")
  have ok1: "\<forall>t'. weights_ok lb1 t'"
    using c1 ok create_weights_ok [OF ok, of fac now t] by (auto split: if_splits)
  show ?thesis
  proof (cases r1)
    case (Inl e)
    with c1 ok1 show ?thesis by (simp add: acquire_def)
  next
    case (Inr i1)
    obtain r2 lb2 where c2:
      "(if healthy_indices (pool_of lb1 t) = []
        then (case create_agent_instance fac now lb1 t of
                (Inl e, lb2) \<Rightarrow> (Inl e, lb2)
              | (Inr i, lb2) \<Rightarrow> (Inr [i], lb2))
        else (Inr (healthy_indices (pool_of lb1 t)), lb1)) = (r2, lb2)"
      by (cases "if healthy_indices (pool_of lb1 t) = []
        then (case create_agent_instance fac now lb1 t of
                (Inl e, lb2) \<Rightarrow> (Inl e, lb2)
              | (Inr i, lb2) \<Rightarrow> (Inr [i], lb2))
        else (Inr (healthy_indices (pool_of lb1 t)), lb1)")
    have lb2: "lb2 = lb1 \<or> lb2 = snd (create_agent_instance fac now lb1 t)"
      using c2 by (auto split: if_splits prod.splits sum.splits)
    have ok2: "\<forall>t'. weights_ok lb2 t'"
      using lb2 ok1 create_weights_ok [OF ok1, of fac now t] by auto
    show ?thesis
    proof (cases r2)
      case (Inl e)
      with c1 c2 Inr ok2 show ?thesis by (simp add: acquire_def)
    next
      case (Inr idxs)
      obtain r3 lb3 where c3: "select_instance lb2 (map ((!) (pool_of lb2 t)) idxs) t = (r3, lb3)"
        by (cases "select_instance lb2 (map ((!) (pool_of lb2 t)) idxs) t")
      have pools3: "agent_pools lb3 = agent_pools lb2"
        using select_instance_pools [of lb2 "map ((!) (pool_of lb2 t)) idxs" t] c3 by simp
      have w3: "agent_weights lb3 = agent_weights lb2"
        using select_instance_weights [of lb2 "map ((!) (pool_of lb2 t)) idxs" t] c3 by simp
      have ok3: "\<forall>t'. weights_ok lb3 t'"
        using ok2 weights_ok_cong [OF pools3 w3] by simp
      show ?thesis
      proof (cases r3)
        case (Inl e)
        with c1 c2 c3 \<open>r1 = Inr i1\<close> \<open>r2 = Inr idxs\<close> ok3 show ?thesis
          by (simp add: acquire_def)
      next
        case (Inr k)
        have "\<forall>x \<in> set ((pool_of lb3 t)[idxs ! k := used now (pool_of lb3 t ! (idxs ! k))]).
                1 \<le> weight x"
        proof
          fix x assume "x \<in> set ((pool_of lb3 t)[idxs ! k := used now (pool_of lb3 t ! (idxs ! k))])"
          then have "weight x \<in> set (map weight
                       ((pool_of lb3 t)[idxs ! k := used now (pool_of lb3 t ! (idxs ! k))]))"
            by simp
          also have "map weight ((pool_of lb3 t)[idxs ! k := used now (pool_of lb3 t ! (idxs ! k))])
                       = map weight (pool_of lb3 t)"
            by (rule map_field_update) simp
          finally show "1 \<le> weight x"
            using ok3 by (auto simp: weights_ok_def)
        qed
        then have "\<forall>t'. weights_ok (set_pool lb3 t ((pool_of lb3 t)[idxs ! k :=
                 used now (pool_of lb3 t ! (idxs ! k))])) t'"
          using ok3 by (simp add: weights_ok_set_pool)
        with c1 c2 c3 \<open>r1 = Inr i1\<close> \<open>r2 = Inr idxs\<close> Inr show ?thesis
          by (simp add: acquire_def Let_def)
      qed
    qed
  qed
qed

lemma weights_ok_new: "weights_ok (new_balancer alg) t"
  by (simp add: weights_ok_def pool_of_def new_balancer_def)

lemma run_ops_weights_ok:
  "\<forall>t. weights_ok lb t \<Longrightarrow> \<forall>t. weights_ok (run_ops fac now lb ops) t"
proof (induction ops arbitrary: lb)
  case Nil
  then show ?case by simp
next
  case (Cons op ops)
  have "\<forall>t. weights_ok (apply_op fac now lb op) t"
  proof (cases op)
    case (ScaleUp t n)
    with scale_up_weights_ok [OF Cons.prems, of fac now t n] show ?thesis by simp
  next
    case (ScaleDown t n)
    with scale_down_weights_ok [OF Cons.prems, of t n] show ?thesis by simp
  next
    case AutoScale
    with auto_scale_loop_weights_ok [OF Cons.prems, of fac now "map fst (agent_pools lb)"]
    show ?thesis by (simp add: auto_scale_def)
  next
    case (Acquire t)
    with acquire_weights_ok [OF Cons.prems, of fac now t] show ?thesis
      by (simp add: snd_get_agent)
  qed
  from Cons.IH [OF this] show ?case by simp
qed

subsection \<open>The example balancers\<close>

lemma str_nat_small: "n < 10 \<Longrightarrow> str_nat n = [digit_char n]"
  by (simp add: str_nat.simps)

lemma pool_of_new_balancer [simp]: "pool_of (new_balancer alg) t = []"
  by (simp add: pool_of_def new_balancer_def)

lemma new_balancer_fields [simp]:
  "algorithm (new_balancer alg) = alg"
  "round_robin_counters (new_balancer alg) t = 0"
  by (simp_all add: new_balancer_def)

lemma weighted_example_pool:
  "map weight (pool_of weighted_example ''A'') = [3, 2, 2]
   \<and> map health_status (pool_of weighted_example ''A'') = [''healthy'', ''healthy'', ''healthy'']
   \<and> algorithm weighted_example = WEIGHTED_ROUND_ROBIN"
  by (simp add: weighted_example_def add_agent_instance_def create_agent_instance_def
        unit_factory_def fresh_instance_def)

lemma healthy_indices_map:
  "healthy_indices p = filter (\<lambda>i. map health_status p ! i = ''healthy'') [0..<length (map health_status p)]"
  by (auto simp: healthy_indices_def intro: filter_cong)


lemma rr_example_pool:
  "map health_status (pool_of rr_example ''Dabby Consultant'') = [''healthy'', ''healthy'']
   \<and> algorithm rr_example = ROUND_ROBIN"
  by (simp add: rr_example_def create_agent_instance_def
        unit_factory_def fresh_instance_def)

lemma rr_example_healthy: "healthy_indices (pool_of rr_example ''Dabby Consultant'') = [0, 1]"
  by (simp add: healthy_indices_map rr_example_pool upt_rec)





lemma unit_factory_ok: "unit_factory t = Inr ()"
  by (simp add: unit_factory_def)

lemma weights_ok_new_balancer: "weights_ok (new_balancer alg) ''Tax Agent''"
  by (simp add: weights_ok_def) (simp add: new_balancer_def)

lemma tax_example_facts:
  "algorithm tax_example = WEIGHTED_ROUND_ROBIN"
  "round_robin_counters tax_example ''Tax Agent'' = 1"
  "map weight (pool_of tax_example ''Tax Agent'') = [2]"
  "healthy_indices (pool_of tax_example ''Tax Agent'') = [0]"
  "agent_weights tax_example = agent_weights (new_balancer WEIGHTED_ROUND_ROBIN :: unit LoadBalancer)"
proof -
  let ?lb = "new_balancer WEIGHTED_ROUND_ROBIN :: unit LoadBalancer"
  have w: "algorithm ?lb = WEIGHTED_ROUND_ROBIN \<longrightarrow> weights_ok ?lb ''Tax Agent''"
    by (simp add: weights_ok_new_balancer)
  have nh: "healthy_indices (pool_of ?lb ''Tax Agent'') = []" by simp
  from acquire_result [of unit_factory "''Tax Agent''" "()" ?lb 0] w nh
  obtain i lb' where acq: "acquire unit_factory 0 ?lb ''Tax Agent'' = (Inr i, lb')"
    and alg: "algorithm lb' = WEIGHTED_ROUND_ROBIN"
    and aw: "agent_weights lb' = agent_weights ?lb"
    and p: "pool_of lb' ''Tax Agent'' = [used 0 (fresh_instance ?lb ''Tax Agent'' () 0)]"
    by (auto simp: unit_factory_ok)
  have lb': "tax_example = lb'"
    by (simp add: tax_example_def snd_get_agent acq)
  show "algorithm tax_example = WEIGHTED_ROUND_ROBIN"
    by (simp add: lb' alg)
  show "round_robin_counters tax_example ''Tax Agent'' = 1"
    using cursor_no_healthy [of unit_factory "''Tax Agent''" "()" ?lb 0] w nh
    by (simp add: tax_example_def snd_get_agent unit_factory_ok)
  show "map weight (pool_of tax_example ''Tax Agent'') = [2]"
    by (simp add: lb' p) (simp add: fresh_instance_def new_balancer_def)
  show "healthy_indices (pool_of tax_example ''Tax Agent'') = [0]"
    using healthy_indices_append_used [of "[]" 0 ?lb "''Tax Agent''" "()" 0]
    by (simp add: lb' p)
  show "agent_weights tax_example = agent_weights ?lb"
    by (simp add: lb' aw)
qed

lemma weights_ok_tax_example: "weights_ok tax_example ''Tax Agent''"
proof -
  have "\<forall>x \<in> set (pool_of tax_example ''Tax Agent''). weight x \<in> set (map weight (pool_of tax_example ''Tax Agent''))"
    by simp
  then have "\<forall>x \<in> set (pool_of tax_example ''Tax Agent''). 1 \<le> weight x"
    unfolding tax_example_facts(3) by simp
  then show ?thesis
    by (simp add: weights_ok_def tax_example_facts(5)) (simp add: new_balancer_def)
qed

lemma pools_nonempty_new [simp]: "pools_nonempty (new_balancer alg)"
  by (simp add: pools_nonempty_def new_balancer_def)

lemma pools_nonempty_rr_example: "pools_nonempty rr_example"
  unfolding rr_example_def
  by (intro create_pools_nonempty pools_nonempty_new)

lemma rr_example_length: "length (pool_of rr_example ''Dabby Consultant'') = 2"
  using rr_example_pool by (metis length_map length_Cons list.size(3) numeral_2_eq_2)

lemma weighted_example_config: "agent_weights weighted_example ''A'' = None"
  by (simp add: weighted_example_def add_agent_instance_def create_agent_instance_def
        unit_factory_def) (simp add: new_balancer_def)

lemma unhealthy_example_facts:
  "algorithm unhealthy_example = WEIGHTED_ROUND_ROBIN"
  "map weight (pool_of unhealthy_example ''A'') = [3, 2, 2]"
  "map health_status (pool_of unhealthy_example ''A'') = [''unhealthy'', ''unhealthy'', ''unhealthy'']"
  "agent_weights unhealthy_example ''A'' = None"
proof -
  have w: "map weight (map (health_check_instance 30 weighted_example (Inl (OtherError ''probe failed''))) p)
             = map weight p" for p :: "unit AgentInstance list"
    by (simp add: health_check_instance_def)
  have h: "map health_status (map (health_check_instance 30 weighted_example (Inl (OtherError ''probe failed''))) p)
             = map (\<lambda>_. ''unhealthy'') p" for p :: "unit AgentInstance list"
    by (simp add: health_check_instance_def)
  show "algorithm unhealthy_example = WEIGHTED_ROUND_ROBIN"
    by (simp add: unhealthy_example_def weighted_example_pool)
  show "map weight (pool_of unhealthy_example ''A'') = [3, 2, 2]"
    using w [of "pool_of weighted_example ''A''"]
    by (simp add: unhealthy_example_def weighted_example_pool)
  have "map (\<lambda>_. ''unhealthy'') (pool_of weighted_example ''A'')
          = map (\<lambda>_. ''unhealthy'') (map weight (pool_of weighted_example ''A''))"
    by simp
  also have "\<dots> = [''unhealthy'', ''unhealthy'', ''unhealthy'']"
    by (simp only: weighted_example_pool) simp
  finally show "map health_status (pool_of unhealthy_example ''A'')
                  = [''unhealthy'', ''unhealthy'', ''unhealthy'']"
    using h [of "pool_of weighted_example ''A''"] by (simp add: unhealthy_example_def)
  show "agent_weights unhealthy_example ''A'' = None"
    by (simp add: unhealthy_example_def weighted_example_config)
qed

lemma unhealthy_example_none_healthy: "healthy_indices (pool_of unhealthy_example ''A'') = []"
  by (simp add: healthy_indices_map unhealthy_example_facts upt_rec)

lemma unhealthy_example_length: "length (pool_of unhealthy_example ''A'') = 3"
  using unhealthy_example_facts(2) by (metis length_map length_Cons list.size(3) numeral_3_eq_3)

lemma weights_ok_unhealthy_example: "weights_ok unhealthy_example ''A''"
proof -
  have "\<forall>x \<in> set (pool_of unhealthy_example ''A'').
          weight x \<in> set (map weight (pool_of unhealthy_example ''A''))"
    by simp
  then have "\<forall>x \<in> set (pool_of unhealthy_example ''A''). 1 \<le> weight x"
    unfolding unhealthy_example_facts(2) by auto
  then show ?thesis
    by (simp add: weights_ok_def unhealthy_example_facts(4))
qed


section \<open>Properties of the scheduler\<close>

lemma one_job_example_eval:
  "status_of one_job_example ''job-1'' = Some Scheduled"
  "jobs one_job_example = {''job-1''}"
  by (simp_all add: one_job_example_def schedule_task_def add_job_def store_task_def new_task_def
        new_scheduler_def status_of_def Let_def)

lemma reschedule_add_failure:
  assumes "tasks s tid = Some info" and "status info = Scheduled"
    and "fromisoformat (replace_Z new_time) = Some d" and "tid \<in> jobs s"
  shows "reschedule_task fromisoformat now (Some msg) s tid new_time
           = (False, s\<lparr>jobs := jobs s - {tid}\<rparr>)"
  using assms by (simp add: reschedule_task_def remove_job_def add_job_def)

lemma orphan_example_eval:
  "status_of orphan_example ''job-1'' = Some Scheduled"
  "jobs orphan_example = {}"
proof -
  have p: "example_parser (replace_Z ''1970-01-02T00:00:00'')
             = Some \<lparr>micros = 86400000000, utcoffset = None\<rparr>"
    by (simp add: example_parser_def replace_Z_def)
  from one_job_example_eval(1) obtain info where
    i: "tasks one_job_example ''job-1'' = Some info" "status info = Scheduled"
    by (auto simp: status_of_def)
  have m: "''job-1'' \<in> jobs one_job_example"
    by (simp add: one_job_example_eval(2))
  have o: "orphan_example = one_job_example\<lparr>jobs := jobs one_job_example - {''job-1''}\<rparr>"
    unfolding orphan_example_def
    using reschedule_add_failure [of one_job_example "''job-1''" info example_parser
            "''1970-01-02T00:00:00''" _ epoch "''store is down''"] i p m
    by simp
  show "status_of orphan_example ''job-1'' = Some Scheduled"
    using one_job_example_eval(1) by (simp add: o status_of_def)
  show "jobs orphan_example = {}"
    by (simp add: o one_job_example_eval(2))
qed

lemma cancel_true_iff:
  "fst (cancel_task now s tid) \<longleftrightarrow> status_of s tid = Some Scheduled \<and> tid \<in> jobs s"
  by (cases "tasks s tid") (simp_all add: cancel_task_def remove_job_def status_of_def)

lemma cancel_effect:
  "if fst (cancel_task now s tid)
   then status_of (snd (cancel_task now s tid)) tid = Some Cancelled
        \<and> jobs (snd (cancel_task now s tid)) = jobs s - {tid}
   else snd (cancel_task now s tid) = s"
  by (cases "tasks s tid") (simp_all add: cancel_task_def remove_job_def status_of_def)

lemma reschedule_true_iff:
  "fst (reschedule_task fromisoformat now add_failure s tid new_time) \<longleftrightarrow>
     status_of s tid = Some Scheduled \<and> fromisoformat (replace_Z new_time) \<noteq> None
     \<and> tid \<in> jobs s \<and> add_failure = None"
  by (cases "tasks s tid"; cases "fromisoformat (replace_Z new_time)"; cases add_failure)
     (simp_all add: reschedule_task_def remove_job_def add_job_def status_of_def)

lemma reschedule_effect:
  "if fst (reschedule_task fromisoformat now add_failure s tid new_time)
   then status_of (snd (reschedule_task fromisoformat now add_failure s tid new_time)) tid
          = Some Scheduled
        \<and> map_option scheduled_for
             (tasks (snd (reschedule_task fromisoformat now add_failure s tid new_time)) tid)
           = fromisoformat (replace_Z new_time)
   else tasks (snd (reschedule_task fromisoformat now add_failure s tid new_time)) = tasks s"
  by (cases "tasks s tid"; cases "fromisoformat (replace_Z new_time)"; cases add_failure)
     (simp_all add: reschedule_task_def remove_job_def add_job_def status_of_def)

lemma task_id_new_task [simp]:
  "task_id (new_task fromisoformat uuid4 now_run now_created tt sid aty stime ps) = uuid4"
  by (simp add: new_task_def Let_def)

lemma status_new_task [simp]:
  "status (new_task fromisoformat uuid4 now_run now_created tt sid aty stime ps) = Scheduled"
  by (simp add: new_task_def Let_def)

lemma status_of_store:
  "status_of (store_task s (new_task fromisoformat uuid4 now_run now_created tt sid aty stime ps)) tid
     = (if tid = uuid4 then Some Scheduled else status_of s tid)"
  by (simp add: store_task_def status_of_def)

lemma status_of_schedule:
  "status_of (snd (schedule_task fromisoformat uuid4 now_run now_created add_failure s
                     tt sid aty stime ps)) tid
     = (if tid = uuid4 then Some (if add_failure = None then Scheduled else Failed)
        else status_of s tid)"
  by (cases add_failure)
     (simp_all add: schedule_task_def add_job_def store_task_def status_of_def Let_def)

lemma jobs_schedule:
  "jobs (snd (schedule_task fromisoformat uuid4 now_run now_created add_failure s
                tt sid aty stime ps))
     = (if add_failure = None then insert uuid4 (jobs s) else jobs s)"
  by (cases add_failure)
     (simp_all add: schedule_task_def add_job_def store_task_def Let_def)

lemma status_of_begin:
  "status_of (begin_task now s job) tid
     = (if tid = job \<and> status_of s job \<noteq> None then Some Running else status_of s tid)"
  by (cases "tasks s job") (simp_all add: begin_task_def status_of_def mark_running_def)

lemma status_finish_task:
  "status (finish_task caps year now info) = Completed
   \<or> status (finish_task caps year now info) = Failed"
  by (cases "run_handler caps year info") (simp_all add: finish_task_def)

lemma status_of_fire_other:
  "tid \<noteq> job \<Longrightarrow> status_of (fire caps year now_started now_ended s job) tid = status_of s tid"
  by (cases "tasks s job") (simp_all add: fire_def execute_task_def status_of_def)

lemma status_of_fire_job:
  "status_of s job \<noteq> None \<Longrightarrow>
     status_of (fire caps year now_started now_ended s job) job = Some Completed
     \<or> status_of (fire caps year now_started now_ended s job) job = Some Failed"
  using status_finish_task [of caps year now_ended]
  by (cases "tasks s job") (simp_all add: fire_def execute_task_def status_of_def)

lemma jobs_fire: "jobs (fire caps year now_started now_ended s job) = jobs s - {job}"
  by (cases "tasks s job") (simp_all add: fire_def execute_task_def)

lemma status_of_cancel:
  "status_of (snd (cancel_task now s c)) tid
     = (if tid = c \<and> status_of s c = Some Scheduled \<and> c \<in> jobs s then Some Cancelled
        else status_of s tid)"
  by (cases "tasks s c") (simp_all add: cancel_task_def remove_job_def status_of_def)

lemma jobs_cancel:
  "jobs (snd (cancel_task now s c))
     = (if status_of s c = Some Scheduled then jobs s - {c} else jobs s)"
  by (cases "tasks s c") (auto simp: cancel_task_def remove_job_def status_of_def)

lemma status_of_reschedule:
  "status_of (snd (reschedule_task fromisoformat now add_failure s c new_time)) tid = status_of s tid"
  by (cases "tasks s c"; cases "fromisoformat (replace_Z new_time)"; cases add_failure)
     (simp_all add: reschedule_task_def remove_job_def add_job_def status_of_def)

lemma jobs_reschedule:
  "jobs (snd (reschedule_task fromisoformat now add_failure s c new_time)) \<subseteq> jobs s"
  by (cases "tasks s c"; cases "fromisoformat (replace_Z new_time)"; cases add_failure)
     (auto simp: reschedule_task_def remove_job_def add_job_def)

lemma step_keeps_timers_scheduled:
  assumes inv: "timers_scheduled s" and en: "enabled s ev"
  shows "timers_scheduled (step caps fromisoformat s ev)"
  unfolding timers_scheduled_def
proof
  fix tid
  assume tid: "tid \<in> jobs (step caps fromisoformat s ev)"
  have sch: "status_of s j = Some Scheduled" if "j \<in> jobs s" for j
    using inv that by (simp add: timers_scheduled_def)
  show "status_of (step caps fromisoformat s ev) tid = Some Scheduled"
  proof (cases ev)
    case (Schedule uuid4 now_run now_created add_failure tt sid aty stime ps)
    with en have fresh: "status_of s uuid4 = None" by (simp add: status_of_def)
    with sch [of uuid4] have notin: "uuid4 \<notin> jobs s" by auto
    show ?thesis
    proof (cases "tid = uuid4")
      case True
      with tid notin have "add_failure = None"
        unfolding Schedule by (simp add: jobs_schedule split: if_splits)
      with True show ?thesis
        unfolding Schedule by (simp add: status_of_schedule)
    next
      case False
      with tid have "tid \<in> jobs s"
        unfolding Schedule by (simp add: jobs_schedule split: if_splits)
      with False sch show ?thesis
        unfolding Schedule by (simp add: status_of_schedule)
    qed
  next
    case (Fire job year now_started now_ended)
    with tid have "tid \<in> jobs s" and "tid \<noteq> job"
      by (simp_all add: jobs_fire)
    with sch show ?thesis
      unfolding Fire by (simp add: status_of_fire_other)
  next
    case (Cancel c now)
    show ?thesis
    proof (cases "status_of s c = Some Scheduled")
      case True
      with tid have "tid \<in> jobs s" and "tid \<noteq> c"
        unfolding Cancel by (simp_all add: jobs_cancel)
      with sch show ?thesis
        unfolding Cancel by (simp add: status_of_cancel)
    next
      case False
      with tid have "tid \<in> jobs s"
        unfolding Cancel by (simp add: jobs_cancel)
      with sch False show ?thesis
        unfolding Cancel by (simp add: status_of_cancel)
    qed
  next
    case (Reschedule c new_time now add_failure)
    with tid jobs_reschedule [of fromisoformat now add_failure s c new_time]
    have "tid \<in> jobs s" by auto
    with sch show ?thesis
      unfolding Reschedule by (simp add: status_of_reschedule)
  qed
qed

lemma run_keeps_timers_scheduled:
  "timers_scheduled s0 \<Longrightarrow> run_events caps fromisoformat s0 evs = Some s \<Longrightarrow> timers_scheduled s"
proof (induction evs arbitrary: s0)
  case Nil
  then show ?case by simp
next
  case (Cons ev evs)
  from Cons.prems(2) have en: "enabled s0 ev"
    and rest: "run_events caps fromisoformat (step caps fromisoformat s0 ev) evs = Some s"
    by (simp_all split: if_splits)
  from step_keeps_timers_scheduled [OF Cons.prems(1) en]
  have "timers_scheduled (step caps fromisoformat s0 ev)" .
  from Cons.IH [OF this rest] show ?case .
qed

lemma timers_scheduled_new [simp]: "timers_scheduled new_scheduler"
  by (simp add: timers_scheduled_def new_scheduler_def)

lemma path_follows_lifecycle:
  assumes inv: "timers_scheduled s" and en: "enabled s ev"
  shows "successively (\<lambda>a b. lifecycle a b \<or> registration_failed ev a b)
           (status_path caps fromisoformat s ev tid)"
proof (cases ev)
  case (Schedule uuid4 now_run now_created add_failure tt sid aty stime ps)
  with en have fresh: "status_of s uuid4 = None" by (simp add: status_of_def)
  then show ?thesis
    unfolding Schedule
    by (simp add: status_of_store status_of_schedule lifecycle_def registration_failed_def)
next
  case (Fire job year now_started now_ended)
  with en inv have sch: "status_of s job = Some Scheduled"
    by (simp add: timers_scheduled_def)
  show ?thesis
  proof (cases "tid = job")
    case True
    from sch have "status_of s job \<noteq> None" by simp
    from status_of_fire_job [OF this, of caps year now_started now_ended]
    have "lifecycle (Some Running) (status_of (fire caps year now_started now_ended s job) job)"
      by (auto simp: lifecycle_def)
    moreover have "lifecycle (Some Scheduled) (Some Running)"
      by (simp add: lifecycle_def)
    ultimately show ?thesis
      unfolding Fire using True sch by (simp add: status_of_begin)
  next
    case False
    then show ?thesis
      unfolding Fire by (simp add: status_of_begin status_of_fire_other lifecycle_def)
  qed
next
  case (Cancel c now)
  then show ?thesis
    by (simp add: status_of_cancel lifecycle_def)
next
  case (Reschedule c new_time now add_failure)
  then show ?thesis
    by (simp add: status_of_reschedule lifecycle_def)
qed

lemma one_job_example_task:
  "\<exists>info. tasks one_job_example ''job-1'' = Some info \<and> status info = Scheduled
     \<and> task_type info = ''consultation'' \<and> parameters info = Map.empty
     \<and> agent_type info = ''Tax Agent''"
  by (simp add: one_job_example_def schedule_task_def add_job_def store_task_def new_task_def
        new_scheduler_def Let_def)

lemma fire_one_job_example:
  "status_of (fire echo_agent 2026 epoch epoch one_job_example ''job-1'') ''job-1'' = Some Completed"
proof -
  from one_job_example_task obtain info where
    i: "tasks one_job_example ''job-1'' = Some info" "task_type info = ''consultation''"
       "parameters info = Map.empty"
    by blast
  have "run_handler echo_agent 2026 (mark_running epoch info)
          = Inr ''Provide consultation on: general financial consultation''"
    using i by (simp add: run_handler_def echo_agent_def mark_running_def execute_consultation_def)
  then show ?thesis
    using i by (simp add: fire_def execute_task_def status_of_def finish_task_def)
qed


section \<open>The claims about the load balancer\<close>

text \<open>
  Claim C1, as stated: for every type the factory can create, \<^verbatim>\<open>get_agent\<close> returns an
  agent and raises nothing. Under weighted round-robin \<^verbatim>\<open>_weighted_round_robin_select\<close>
  computes \<^verbatim>\<open>counter % total_weight\<close>, and nothing in the module keeps a weight
  from being 0: after \<^verbatim>\<open>set_agent_weight("Tax Agent", 0)\<close> the instance that \<^verbatim>\<open>get_agent\<close>
  creates has weight 0, the total weight is 0, and the call raises
  \<^verbatim>\<open>ZeroDivisionError\<close>, although the factory creates the type.
\<close>

theorem zero_weight_raises_counterexample:
  "unit_factory ''Tax Agent'' = Inr ()
   \<and> fst (get_agent unit_factory 0 zero_weight_example ''Tax Agent'') = Inl ZeroDivisionError"
proof -
  let ?lb = "zero_weight_example"
  have a: "algorithm ?lb = WEIGHTED_ROUND_ROBIN"
    and p: "pool_of ?lb ''Tax Agent'' = []"
    and c: "agent_weights ?lb ''Tax Agent'' = Some 0"
    by (simp_all add: zero_weight_example_def set_agent_weight_def new_balancer_def pool_of_def)
  have h: "healthy_indices (pool_of ?lb ''Tax Agent'') = []"
    by (simp add: p)
  have wf: "weight (fresh_instance ?lb ''Tax Agent'' () 0) = 0"
    by (simp add: fresh_instance_def c)
  have "acquire unit_factory 0 ?lb ''Tax Agent''
          = (Inl ZeroDivisionError,
             set_pool ?lb ''Tax Agent'' (pool_of ?lb ''Tax Agent'' @ [fresh_instance ?lb ''Tax Agent'' () 0]))"
    using acquire_no_healthy [of unit_factory "''Tax Agent''" "()" ?lb 0] h a wf
    by (simp add: unit_factory_ok select_instance_def weighted_round_robin_select_def)
  then show ?thesis
    by (simp add: get_agent_def unit_factory_ok)
qed

text \<open>
  Claim C1, amended. For a type that the factory can create, and weights of at least
  1 where the algorithm is weighted round-robin (on the instances of the pool and on
  the weight configured for the type), \<^verbatim>\<open>get_agent\<close> returns an agent and raises
  nothing, under each of the four algorithms. When the pool has no instance whose
  \<^verbatim>\<open>health_status\<close> is \<^verbatim>\<open>"healthy"\<close>, exactly one fresh instance is appended to the pool
  and it is the one that serves the request; when there is a healthy instance, no
  instance is created and a healthy one serves. The initial balancer has such
  weights and \<^verbatim>\<open>scale_up\<close>, \<^verbatim>\<open>scale_down\<close>, \<^verbatim>\<open>auto_scale\<close> and \<^verbatim>\<open>get_agent\<close> keep them (lemmas
  \<open>weights_ok_new\<close> and \<open>run_ops_weights_ok\<close>).
\<close>

theorem get_agent_always_returns:
  assumes "fac t = Inr a"
    and "algorithm lb = WEIGHTED_ROUND_ROBIN \<longrightarrow> weights_ok lb t"
  shows "\<exists>i lb'. get_agent fac now lb t = (Inr (agent (pool_of lb' t ! i)), lb')
           \<and> i < length (pool_of lb' t)
           \<and> agent (pool_of lb' t ! i) = agent ((pool_of lb t @ [fresh_instance lb t a now]) ! i)
           \<and> (if healthy_indices (pool_of lb t) = []
                then pool_of lb' t = pool_of lb t @ [used now (fresh_instance lb t a now)]
                     \<and> i = length (pool_of lb t)
                else pool_of lb' t = (pool_of lb t)[i := used now (pool_of lb t ! i)]
                     \<and> i \<in> set (healthy_indices (pool_of lb t)))"
proof -
  from assms acquire_result [of fac t a lb now]
  obtain i lb' where "acquire fac now lb t = (Inr i, lb')"
    and "i < length (pool_of lb' t)"
    and "agent (pool_of lb' t ! i) = agent ((pool_of lb t @ [fresh_instance lb t a now]) ! i)"
    and "if healthy_indices (pool_of lb t) = []
         then pool_of lb' t = pool_of lb t @ [used now (fresh_instance lb t a now)]
              \<and> i = length (pool_of lb t)
         else pool_of lb' t = (pool_of lb t)[i := used now (pool_of lb t ! i)]
              \<and> i \<in> set (healthy_indices (pool_of lb t))"
    by blast
  then show ?thesis
    by (intro exI [of _ i] exI [of _ lb']) (simp add: get_agent_def)
qed


theorem get_agent_always_returns_witness:
  "fst (get_agent unit_factory 0 unhealthy_example ''A'') = Inr ()
   \<and> length (pool_of unhealthy_example ''A'') = 3
   \<and> length (pool_of (snd (get_agent unit_factory 0 unhealthy_example ''A'')) ''A'') = 4"
proof -
  have f: "unit_factory ''A'' = Inr ()"
    by (simp add: unit_factory_def)
  have w: "algorithm unhealthy_example = WEIGHTED_ROUND_ROBIN \<longrightarrow> weights_ok unhealthy_example ''A''"
    by (simp add: weights_ok_unhealthy_example)
  from get_agent_always_returns [of unit_factory "''A''" "()", OF f w, of 0]
  show ?thesis
    by (auto simp: unhealthy_example_none_healthy unhealthy_example_length)
qed



text \<open>
  Claim C4. Under round-robin, with a pool whose healthy instances stay the same and
  are at least one, consecutive \<^verbatim>\<open>get_agent\<close> calls return healthy instances only; two
  calls return the same instance exactly when the number of calls between them is a
  multiple of the number of healthy instances; and any run of that many consecutive
  calls visits every healthy instance.
\<close>

theorem round_robin_visits_all:
  assumes alg: "algorithm lb = ROUND_ROBIN"
    and ne: "healthy_indices (pool_of lb t) \<noteq> []"
  shows "let outs = fst (acquire_run fac lb t nows);
             hs = healthy_indices (pool_of lb t);
             n = length hs
         in length outs = length nows
            \<and> (\<forall>k < length nows. \<exists>i \<in> set hs. outs ! k = Inr i)
            \<and> (\<forall>j k. j < k \<and> k < length nows \<longrightarrow> (outs ! j = outs ! k \<longleftrightarrow> n dvd k - j))
            \<and> (\<forall>k. k + n \<le> length nows \<longrightarrow> set (take n (drop k outs)) = Inr ` set hs)"
proof -
  let ?hs = "healthy_indices (pool_of lb t)"
  let ?n = "length ?hs"
  let ?c = "round_robin_counters lb t"
  let ?f = "\<lambda>k. (Inr (?hs ! nat ((?c + int k) mod int ?n)) :: exn + nat)"
  let ?outs = "fst (acquire_run fac lb t nows)"
  have n: "0 < ?n" using ne by simp
  have outs: "?outs = map ?f [0..<length nows]"
    by (rule run_rr [OF alg refl ne])
  have len: "length ?outs = length nows" by (simp add: outs)
  have nth: "?outs ! k = ?f k" if "k < length nows" for k
    using that by (simp add: outs)
  have idx: "nat ((?c + int k) mod int ?n) < ?n" for k
    by (rule nat_mod_less [OF n])
  have p1: "\<forall>k < length nows. \<exists>i \<in> set ?hs. ?outs ! k = Inr i"
    using nth idx by (metis nth_mem)
  have p2: "\<forall>j k. j < k \<and> k < length nows \<longrightarrow> (?outs ! j = ?outs ! k \<longleftrightarrow> ?n dvd k - j)"
  proof (intro allI impI)
    fix j k assume jk: "j < k \<and> k < length nows"
    have "?outs ! j = ?outs ! k \<longleftrightarrow>
            ?hs ! nat ((?c + int j) mod int ?n) = ?hs ! nat ((?c + int k) mod int ?n)"
      using jk by (simp add: nth)
    also have "\<dots> \<longleftrightarrow> nat ((?c + int j) mod int ?n) = nat ((?c + int k) mod int ?n)"
      by (rule nth_eq_iff_index_eq [OF healthy_indices_distinct idx idx])
    also have "\<dots> \<longleftrightarrow> (?c + int j) mod int ?n = (?c + int k) mod int ?n"
      using n by (auto simp: nat_eq_iff2)
    also have "\<dots> \<longleftrightarrow> int ?n dvd (?c + int k) - (?c + int j)"
      by (metis mod_eq_dvd_iff)
    also have "(?c + int k) - (?c + int j) = int (k - j)"
      using jk by simp
    also have "int ?n dvd int (k - j) \<longleftrightarrow> ?n dvd k - j"
      by (rule int_dvd_int_iff)
    finally show "?outs ! j = ?outs ! k \<longleftrightarrow> ?n dvd k - j" .
  qed
  have p3: "\<forall>k. k + ?n \<le> length nows \<longrightarrow> set (take ?n (drop k ?outs)) = Inr ` set ?hs"
  proof (intro allI impI)
    fix k assume k: "k + ?n \<le> length nows"
    have "take ?n (drop k ?outs) = map ?f [k..<k + ?n]"
      using k by (simp add: outs drop_map take_map add.commute)
    then have "set (take ?n (drop k ?outs)) = ?f ` {k..<k + ?n}" by simp
    also have "{k..<k + ?n} = (\<lambda>d. k + d) ` {0..<?n}"
      by (auto simp: image_iff)
    also have "?f ` ((\<lambda>d. k + d) ` {0..<?n}) = (\<lambda>d. ?f (k + d)) ` {0..<?n}"
      by (simp only: image_image)
    also have "\<dots> = (\<lambda>d. Inr (?hs ! nat (((?c + int k) + int d) mod int ?n))) ` {0..<?n}"
      by (rule image_cong) (simp_all add: add.assoc)
    also have "\<dots> = (\<lambda>r. Inr (?hs ! nat r)) `
                       ((\<lambda>d. ((?c + int k) + int d) mod int ?n) ` {0..<nat (int ?n)})"
      by (simp only: image_image nat_int)
    also have "(\<lambda>d. ((?c + int k) + int d) mod int ?n) ` {0..<nat (int ?n)} = {0..<int ?n}"
      by (rule mod_window_set) (use n in simp)
    also have "{0..<int ?n} = int ` {0..<?n}"
      by (simp add: image_int_atLeastLessThan)
    also have "(\<lambda>r. (Inr (?hs ! nat r) :: exn + nat)) ` (int ` {0..<?n}) = Inr ` ((!) ?hs ` {0..<?n})"
      by (simp add: image_image)
    also have "(!) ?hs ` {0..<?n} = set ?hs"
      by (metis list.set_map map_nth set_upt)
    finally show "set (take ?n (drop k ?outs)) = Inr ` set ?hs" .
  qed
  from len p1 p2 p3 show ?thesis by (simp only: Let_def)
qed

theorem round_robin_visits_all_witness:
  "fst (acquire_run unit_factory rr_example ''Dabby Consultant'' [1, 2, 3]) ! 0
     \<noteq> fst (acquire_run unit_factory rr_example ''Dabby Consultant'' [1, 2, 3]) ! 1
   \<and> fst (acquire_run unit_factory rr_example ''Dabby Consultant'' [1, 2, 3]) ! 0
     = fst (acquire_run unit_factory rr_example ''Dabby Consultant'' [1, 2, 3]) ! 2
   \<and> set (take 2 (fst (acquire_run unit_factory rr_example ''Dabby Consultant'' [1, 2, 3])))
     = {Inr 0, Inr 1}"
proof -
  have a: "algorithm rr_example = ROUND_ROBIN"
    by (simp add: rr_example_pool)
  have h: "healthy_indices (pool_of rr_example ''Dabby Consultant'') \<noteq> []"
    by (simp add: rr_example_healthy)
  let ?outs = "fst (acquire_run unit_factory rr_example ''Dabby Consultant'' [1, 2, 3])"
  note acquire_run.simps [simp del]
  have all: "length ?outs = length [1, 2, 3 :: real]
      \<and> (\<forall>k < length [1, 2, 3 :: real]. \<exists>i \<in> set [0, 1]. ?outs ! k = Inr i)
      \<and> (\<forall>j k. j < k \<and> k < length [1, 2, 3 :: real] \<longrightarrow>
             (?outs ! j = ?outs ! k \<longleftrightarrow> length [0 :: nat, 1] dvd k - j))
      \<and> (\<forall>k. k + length [0 :: nat, 1] \<le> length [1, 2, 3 :: real] \<longrightarrow>
             set (take (length [0 :: nat, 1]) (drop k ?outs)) = Inr ` set [0, 1])"
    using round_robin_visits_all [OF a h, of unit_factory "[1, 2, 3]"]
    unfolding Let_def rr_example_healthy .
  from all have "0 < (1::nat) \<and> 1 < length [1, 2, 3 :: real] \<longrightarrow>
      (?outs ! 0 = ?outs ! 1 \<longleftrightarrow> length [0 :: nat, 1] dvd 1 - 0)"
    by blast
  then have "?outs ! 0 \<noteq> ?outs ! 1" by simp
  moreover from all have "0 < (2::nat) \<and> 2 < length [1, 2, 3 :: real] \<longrightarrow>
      (?outs ! 0 = ?outs ! 2 \<longleftrightarrow> length [0 :: nat, 1] dvd 2 - 0)"
    by blast
  then have "?outs ! 0 = ?outs ! 2" by (simp add: eval_nat_numeral)
  moreover from all have "0 + length [0 :: nat, 1] \<le> length [1, 2, 3 :: real] \<longrightarrow>
      set (take (length [0 :: nat, 1]) (drop 0 ?outs)) = Inr ` set [0, 1]"
    by blast
  then have "set (take 2 ?outs) = {Inr 0, Inr 1}" by (simp add: numeral_2_eq_2)
  ultimately show ?thesis by blast
qed

text \<open>
  Claim C8, as stated: after every \<^verbatim>\<open>get_agent\<close> the counter of the type is its old
  value plus 1, reduced modulo the pool size under round-robin and modulo the total
  weight of the pool under weighted round-robin. The code does not reduce the counter
  under weighted round-robin: \<^verbatim>\<open>_weighted_round_robin_select\<close> reduces it when it reads
  it (\<^verbatim>\<open>counter % total_weight\<close>) and stores \<^verbatim>\<open>counter + 1\<close>. With one instance of
  weight 2 and the counter at 1, the next call leaves the counter at 2, where the
  claim has (1 + 1) mod 2 = 0.
\<close>

theorem cursor_not_reduced_counterexample:
  "algorithm tax_example = WEIGHTED_ROUND_ROBIN
   \<and> sum_list (map weight (pool_of (snd (get_agent unit_factory 0 tax_example ''Tax Agent''))
                                      ''Tax Agent'')) = 2
   \<and> round_robin_counters tax_example ''Tax Agent'' = 1
   \<and> round_robin_counters (snd (get_agent unit_factory 0 tax_example ''Tax Agent'')) ''Tax Agent'' = 2
   \<and> round_robin_counters (snd (get_agent unit_factory 0 tax_example ''Tax Agent'')) ''Tax Agent''
       \<noteq> (round_robin_counters tax_example ''Tax Agent'' + 1)
           mod sum_list (map weight (pool_of (snd (get_agent unit_factory 0 tax_example ''Tax Agent''))
                                        ''Tax Agent''))"
proof -
  have w: "algorithm tax_example = WEIGHTED_ROUND_ROBIN \<longrightarrow> weights_ok tax_example ''Tax Agent''"
    by (simp add: weights_ok_tax_example)
  have h: "healthy_indices (pool_of tax_example ''Tax Agent'') \<noteq> []"
    by (simp add: tax_example_facts)
  from get_agent_healthy_stable [of unit_factory "''Tax Agent''" "()" tax_example 0] w h
  have "map weight (pool_of (snd (get_agent unit_factory 0 tax_example ''Tax Agent'')) ''Tax Agent'') = [2]"
    by (simp add: unit_factory_ok tax_example_facts)
  moreover from cursor_healthy [OF w h, of unit_factory 0]
  have "round_robin_counters (snd (get_agent unit_factory 0 tax_example ''Tax Agent'')) ''Tax Agent'' = 2"
    by (simp add: snd_get_agent tax_example_facts)
  ultimately show ?thesis
    by (simp add: tax_example_facts)
qed



text \<open>
  Claim C8, amended. After a \<^verbatim>\<open>get_agent\<close> call for a type the factory can create: under
  round-robin the counter of the type is its old value plus 1 reduced modulo the
  number of healthy instances of the pool (the list the selection is made from, which
  is the whole pool when every instance is healthy); under weighted round-robin, with
  weights of at least 1, it is its old value plus 1, not reduced; under the other two
  algorithms it is unchanged. The counters of the other types are unchanged.
\<close>

theorem cursor_advance:
  assumes fac: "fac t = Inr a"
    and w: "algorithm lb = WEIGHTED_ROUND_ROBIN \<longrightarrow> weights_ok lb t"
  shows "(case algorithm lb of
            ROUND_ROBIN \<Rightarrow>
              round_robin_counters (snd (get_agent fac now lb t)) t =
                (round_robin_counters lb t + 1)
                  mod int (length (healthy_indices (pool_of (snd (get_agent fac now lb t)) t)))
          | WEIGHTED_ROUND_ROBIN \<Rightarrow>
              round_robin_counters (snd (get_agent fac now lb t)) t = round_robin_counters lb t + 1
          | _ \<Rightarrow>
              round_robin_counters (snd (get_agent fac now lb t)) t = round_robin_counters lb t)
         \<and> (\<forall>t'. t' \<noteq> t \<longrightarrow>
               round_robin_counters (snd (get_agent fac now lb t)) t' = round_robin_counters lb t')"
proof (cases "healthy_indices (pool_of lb t) = []")
  case True
  from acquire_result [of fac t a lb now] fac w True
  obtain i lb' where acq: "acquire fac now lb t = (Inr i, lb')"
    and p: "pool_of lb' t = pool_of lb t @ [used now (fresh_instance lb t a now)]"
    by auto
  have "healthy_indices (pool_of (snd (acquire fac now lb t)) t) = [length (pool_of lb t)]"
    using acq p healthy_indices_append_used [OF True] by simp
  with cursor_no_healthy [of fac t a lb now] fac w True show ?thesis
    by (simp add: snd_get_agent split: LoadBalancingAlgorithm.split)
next
  case False
  from acquire_result [of fac t a lb now] fac w False
  obtain i lb' where acq: "acquire fac now lb t = (Inr i, lb')"
    and p: "pool_of lb' t = (pool_of lb t)[i := used now (pool_of lb t ! i)]"
    by auto
  have "healthy_indices (pool_of (snd (acquire fac now lb t)) t) = healthy_indices (pool_of lb t)"
    using acq p by (simp add: healthy_indices_update)
  with cursor_healthy [OF w False, of fac now] show ?thesis
    by (simp add: snd_get_agent split: LoadBalancingAlgorithm.split)
qed



theorem cursor_advance_witness:
  "round_robin_counters (snd (get_agent unit_factory 0 rr_example ''Dabby Consultant''))
     ''Dabby Consultant'' = 1
   \<and> round_robin_counters (snd (get_agent unit_factory 0 rr_example ''Dabby Consultant''))
     ''Tax Agent'' = 0"
proof -
  have w: "algorithm rr_example = WEIGHTED_ROUND_ROBIN \<longrightarrow> weights_ok rr_example ''Dabby Consultant''"
    by (simp add: rr_example_pool)
  have h: "healthy_indices (pool_of rr_example ''Dabby Consultant'') \<noteq> []"
    by (simp add: rr_example_healthy)
  have c: "round_robin_counters rr_example t = 0" for t
    by (simp add: rr_example_def create_agent_instance_def unit_factory_def)
  from get_agent_healthy_stable [of unit_factory "''Dabby Consultant''" "()" rr_example 0] w h
  have s: "healthy_indices (pool_of (snd (get_agent unit_factory 0 rr_example ''Dabby Consultant''))
                              ''Dabby Consultant'') = [0, 1]"
    by (simp add: unit_factory_ok rr_example_healthy)
  from cursor_advance [of unit_factory "''Dabby Consultant''" "()" rr_example 0] w
  show ?thesis
    by (simp add: unit_factory_ok rr_example_pool s c)
qed

text \<open>
  Claim C5, as stated: under \<^verbatim>\<open>scale_up\<close>, \<^verbatim>\<open>scale_down\<close>, \<^verbatim>\<open>auto_scale\<close> and \<^verbatim>\<open>get_agent\<close> the
  size of a pool stays between 1 and 5. Only \<^verbatim>\<open>auto_scale\<close> checks the ceiling
  (\<^verbatim>\<open>if len(instances) < 5\<close>) before it calls \<^verbatim>\<open>scale_up\<close>; \<^verbatim>\<open>scale_up\<close> itself adds the
  instances it is asked for. A pool of 2 scaled up by 4 has 6 instances.
\<close>

theorem scale_up_past_five_counterexample:
  "length (pool_of rr_example ''Dabby Consultant'') = 2
   \<and> length (pool_of (snd (scale_up unit_factory 0 rr_example ''Dabby Consultant'' 4))
                ''Dabby Consultant'') = 6"
  using scale_up_loop_length [of unit_factory "''Dabby Consultant''" "()" 0 rr_example 4]
  by (simp add: scale_up_def unit_factory_ok rr_example_length)


text \<open>
  Claim C5, amended. Along every sequence of \<^verbatim>\<open>scale_up\<close>, \<^verbatim>\<open>scale_down\<close>, \<^verbatim>\<open>auto_scale\<close> and
  \<^verbatim>\<open>get_agent\<close> calls, whatever they raise, every pool that is a key of \<^verbatim>\<open>agent_pools\<close>
  keeps at least one instance; \<^verbatim>\<open>scale_down\<close> never empties a pool, whatever number of
  instances it is asked to remove; and \<^verbatim>\<open>auto_scale\<close> never grows a pool past 5
  instances: after it, a pool has at most 5 instances or no more than it had.
\<close>

theorem pool_size_bounds:
  assumes "pools_nonempty lb"
  shows "pools_nonempty (run_ops fac now lb ops)
         \<and> (pool_of lb t \<noteq> [] \<longrightarrow> pool_of (scale_down lb t n) t \<noteq> [])
         \<and> length (pool_of (snd (auto_scale fac now lb)) t) \<le> max 5 (length (pool_of lb t))"
proof (intro conjI)
  show "pools_nonempty (run_ops fac now lb ops)"
    by (rule run_ops_nonempty [OF assms])
  show "pool_of lb t \<noteq> [] \<longrightarrow> pool_of (scale_down lb t n) t \<noteq> []"
    using scale_down_pool [of lb t n t] by simp
  show "length (pool_of (snd (auto_scale fac now lb)) t) \<le> max 5 (length (pool_of lb t))"
    using auto_scale_loop_props [of fac now lb "map fst (agent_pools lb)" t]
    by (simp add: auto_scale_def)
qed


theorem pool_size_bounds_witness:
  "pools_nonempty (run_ops unit_factory 0 rr_example
                     [ScaleDown ''Dabby Consultant'' 5, AutoScale, Acquire ''Tax Agent''])
   \<and> pool_of (scale_down rr_example ''Dabby Consultant'' 5) ''Dabby Consultant'' \<noteq> []
   \<and> length (pool_of (snd (auto_scale unit_factory 0 rr_example)) ''Dabby Consultant'') \<le> 5"
proof -
  have ne: "pool_of rr_example ''Dabby Consultant'' \<noteq> []"
    using rr_example_length by auto
  from pool_size_bounds [OF pools_nonempty_rr_example, of unit_factory 0
         "[ScaleDown ''Dabby Consultant'' 5, AutoScale, Acquire ''Tax Agent'']"
         "''Dabby Consultant''" 5] ne
  show ?thesis
    by (simp del: run_ops.simps add: rr_example_length)
qed


section \<open>The claims about the scheduler\<close>

text \<open>
  Claim C7. When the run-at time of \<^verbatim>\<open>schedule_task\<close> is absent (\<^verbatim>\<open>None\<close> or the empty
  string) or does not parse, the job is stored with \<^verbatim>\<open>scheduled_for\<close> exactly one minute
  (60 000 000 microseconds) after the clock reading, and the call returns the job id
  as for any other request; \<^verbatim>\<open>reschedule_task\<close> with a time that does not parse returns
  \<^verbatim>\<open>False\<close> and changes nothing.
\<close>

theorem schedule_default_time:
  assumes "schedule_time = None \<or> schedule_time = Some []
           \<or> (\<exists>stime. schedule_time = Some stime \<and> fromisoformat (replace_Z stime) = None)"
  shows "fst (schedule_task fromisoformat uuid4 now_run now_created add_failure s
                tt sid aty schedule_time ps) = uuid4
         \<and> (\<exists>info. tasks (snd (schedule_task fromisoformat uuid4 now_run now_created add_failure s
                                  tt sid aty schedule_time ps)) uuid4 = Some info
               \<and> micros (scheduled_for info) = micros now_run + 60 * 1000000
               \<and> utcoffset (scheduled_for info) = utcoffset now_run)
         \<and> (fromisoformat (replace_Z new_time) = None \<longrightarrow>
              reschedule_task fromisoformat now add_failure' s' tid new_time = (False, s'))"
  using assms
  by (auto simp: schedule_task_def add_job_def store_task_def new_task_def plus_minutes_def
        reschedule_task_def Let_def split: option.split)

theorem schedule_default_time_witness:
  "map_option (\<lambda>info. micros (scheduled_for info))
     (tasks (snd (schedule_task example_parser ''job-1'' epoch epoch None new_scheduler
                    ''consultation'' ''session-1'' ''Tax Agent'' (Some ''tomorrow'') None)) ''job-1'')
     = Some 60000000
   \<and> fst (reschedule_task example_parser epoch None new_scheduler ''job-1'' ''tomorrow'') = False"
proof -
  have p: "example_parser (replace_Z ''tomorrow'') = None"
    by (simp add: example_parser_def replace_Z_def)
  then have h: "Some ''tomorrow'' = None \<or> Some ''tomorrow'' = Some []
      \<or> (\<exists>stime. Some ''tomorrow'' = Some stime \<and> example_parser (replace_Z stime) = None)"
    by blast
  from schedule_default_time [OF h, of "''job-1''" epoch epoch None new_scheduler
         "''consultation''" "''session-1''" "''Tax Agent''" None "''tomorrow''" epoch None
         new_scheduler "''job-1''"] p
  show ?thesis
    by (auto simp: epoch_def)
qed

text \<open>
  Claim C9. \<^verbatim>\<open>schedule_task\<close> returns the id it has drawn and stores under it a record
  that \<^verbatim>\<open>get_task_status\<close> returns, whether or not the timer could be registered: when
  \<^verbatim>\<open>add_job\<close> raises, the record is there with status \<^verbatim>\<open>failed\<close> and the message of the
  exception, and \<^verbatim>\<open>schedule_task\<close> still returns the id.
\<close>

theorem schedule_task_stores:
  "fst (schedule_task fromisoformat uuid4 now_run now_created add_failure s tt sid aty stime ps) = uuid4
   \<and> (\<exists>info. get_task_status
                (snd (schedule_task fromisoformat uuid4 now_run now_created add_failure s
                        tt sid aty stime ps)) uuid4 = Some info
         \<and> task_id info = uuid4 \<and> task_type info = tt \<and> session_id info = sid
         \<and> agent_type info = aty
         \<and> (case add_failure of
               None \<Rightarrow> status info = Scheduled \<and> error info = None
             | Some msg \<Rightarrow> status info = Failed \<and> error info = Some msg))"
  by (simp add: schedule_task_def get_task_status_def add_job_def store_task_def new_task_def
        Let_def split: option.split)

theorem schedule_task_stores_witness:
  "map_option (\<lambda>info. (status info, error info))
     (get_task_status
        (snd (schedule_task example_parser ''job-1'' epoch epoch (Some ''store is down'')
                new_scheduler ''consultation'' ''session-1'' ''Tax Agent'' None None)) ''job-1'')
     = Some (Failed, Some ''store is down'')"
  using schedule_task_stores [of example_parser "''job-1''" epoch epoch "Some ''store is down''"
          new_scheduler "''consultation''" "''session-1''" "''Tax Agent''" None None]
  by auto

text \<open>
  Claim C10. \<^verbatim>\<open>_execute_task\<close> with an id that is not a key of \<^verbatim>\<open>self.tasks\<close> returns at
  once: the scheduler, its job map and every job record are as they were.
\<close>

theorem execute_unknown_noop:
  "tasks s tid = None \<Longrightarrow> execute_task caps year now_started now_ended s tid = s"
  by (simp add: execute_task_def)

theorem execute_unknown_noop_witness:
  "execute_task echo_agent 2026 epoch epoch new_scheduler ''ghost'' = new_scheduler"
proof -
  have "tasks new_scheduler ''ghost'' = None"
    by (simp add: new_scheduler_def)
  then show ?thesis
    by (rule execute_unknown_noop)
qed

text \<open>
  Claim C6, as stated: \<^verbatim>\<open>cancel_task\<close> returns \<^verbatim>\<open>True\<close> exactly when the job exists and its
  status is \<^verbatim>\<open>scheduled\<close>. The code calls \<^verbatim>\<open>remove_job\<close> first, inside a \<^verbatim>\<open>try\<close> whose
  handler returns \<^verbatim>\<open>False\<close>: a job that is \<^verbatim>\<open>scheduled\<close> but has no pending timer is
  not cancelled. Such a job is left by a \<^verbatim>\<open>reschedule_task\<close> in which \<^verbatim>\<open>add_job\<close> raised.
\<close>

theorem cancel_needs_timer_counterexample:
  "status_of orphan_example ''job-1'' = Some Scheduled
   \<and> fst (cancel_task epoch orphan_example ''job-1'') = False"
proof -
  from orphan_example_eval(1) obtain info where
    "tasks orphan_example ''job-1'' = Some info" "status info = Scheduled"
    by (auto simp: status_of_def)
  then show ?thesis
    using orphan_example_eval by (simp add: cancel_task_def remove_job_def)
qed


text \<open>
  Claim C6, amended. \<^verbatim>\<open>cancel_task\<close> returns \<^verbatim>\<open>True\<close> exactly when the job exists, its
  status is \<^verbatim>\<open>scheduled\<close> and the timer engine still holds its pending timer; it then
  removes the timer and sets the status to \<^verbatim>\<open>cancelled\<close>; otherwise it returns \<^verbatim>\<open>False\<close>,
  raises nothing and leaves the scheduler as it was. \<^verbatim>\<open>reschedule_task\<close> returns \<^verbatim>\<open>True\<close>
  exactly when the job exists, its status is \<^verbatim>\<open>scheduled\<close>, the new time parses, the
  pending timer is still held and the new timer registers; the job then stays
  \<^verbatim>\<open>scheduled\<close> with the new run date; otherwise it returns \<^verbatim>\<open>False\<close>, raises nothing and
  leaves every job record as it was.
\<close>

theorem cancel_reschedule_outcomes:
  "(fst (cancel_task now s tid) \<longleftrightarrow> status_of s tid = Some Scheduled \<and> tid \<in> jobs s)
   \<and> (if fst (cancel_task now s tid)
       then status_of (snd (cancel_task now s tid)) tid = Some Cancelled
            \<and> jobs (snd (cancel_task now s tid)) = jobs s - {tid}
       else snd (cancel_task now s tid) = s)
   \<and> (fst (reschedule_task fromisoformat now add_failure s tid new_time) \<longleftrightarrow>
         status_of s tid = Some Scheduled \<and> fromisoformat (replace_Z new_time) \<noteq> None
         \<and> tid \<in> jobs s \<and> add_failure = None)
   \<and> (if fst (reschedule_task fromisoformat now add_failure s tid new_time)
       then status_of (snd (reschedule_task fromisoformat now add_failure s tid new_time)) tid
              = Some Scheduled
            \<and> map_option scheduled_for
                 (tasks (snd (reschedule_task fromisoformat now add_failure s tid new_time)) tid)
               = fromisoformat (replace_Z new_time)
       else tasks (snd (reschedule_task fromisoformat now add_failure s tid new_time)) = tasks s)"
  using cancel_true_iff [of now s tid] cancel_effect [of now s tid]
    reschedule_true_iff [of fromisoformat now add_failure s tid new_time]
    reschedule_effect [of fromisoformat now add_failure s tid new_time]
  by (intro conjI)


theorem cancel_reschedule_outcomes_witness:
  "fst (cancel_task epoch one_job_example ''job-1'') = True
   \<and> status_of (snd (cancel_task epoch one_job_example ''job-1'')) ''job-1'' = Some Cancelled
   \<and> fst (reschedule_task example_parser epoch None one_job_example ''job-1'' ''tomorrow'') = False"
  using cancel_reschedule_outcomes [of epoch one_job_example "''job-1''" example_parser None "''tomorrow''"]
    one_job_example_eval
  by (simp add: example_parser_def replace_Z_def)

text \<open>
  Claim C2, as stated: a job's status changes only along \<^verbatim>\<open>scheduled\<close> to \<^verbatim>\<open>running\<close> to
  \<^verbatim>\<open>completed\<close> or \<^verbatim>\<open>failed\<close>, and \<^verbatim>\<open>scheduled\<close> to \<^verbatim>\<open>cancelled\<close>; in particular a job never
  becomes \<^verbatim>\<open>failed\<close> without having been \<^verbatim>\<open>running\<close>. \<^verbatim>\<open>schedule_task\<close> stores the record
  as \<^verbatim>\<open>scheduled\<close> and then, when \<^verbatim>\<open>add_job\<close> raises, sets it to \<^verbatim>\<open>failed\<close> in its
  \<^verbatim>\<open>except\<close> branch: the job goes from \<^verbatim>\<open>scheduled\<close> to \<^verbatim>\<open>failed\<close> and was never \<^verbatim>\<open>running\<close>.
\<close>

theorem failed_without_running_counterexample:
  "status_path echo_agent example_parser new_scheduler
     (Schedule ''job-1'' epoch epoch (Some ''store is down'')
        ''consultation'' ''session-1'' ''Tax Agent'' None None) ''job-1''
     = [None, Some Scheduled, Some Failed]
   \<and> \<not> successively lifecycle
         (status_path echo_agent example_parser new_scheduler
            (Schedule ''job-1'' epoch epoch (Some ''store is down'')
               ''consultation'' ''session-1'' ''Tax Agent'' None None) ''job-1'')"
proof -
  have n: "status_of new_scheduler ''job-1'' = None"
    by (simp add: status_of_def new_scheduler_def)
  have p: "status_path echo_agent example_parser new_scheduler
     (Schedule ''job-1'' epoch epoch (Some ''store is down'')
        ''consultation'' ''session-1'' ''Tax Agent'' None None) ''job-1''
     = [None, Some Scheduled, Some Failed]"
    by (simp add: status_of_store status_of_schedule n)
  show ?thesis
    unfolding p by (simp add: lifecycle_def)
qed


text \<open>
  Claim C2, amended. In every run of the scheduler from its initial state, where
  \<^verbatim>\<open>schedule_task\<close> draws fresh ids and \<^verbatim>\<open>_execute_task\<close> is called by the timer engine
  for a pending timer, the statuses a job goes through during any operation follow
  \<^verbatim>\<open>scheduled\<close> to \<^verbatim>\<open>running\<close> to \<^verbatim>\<open>completed\<close> or \<^verbatim>\<open>failed\<close>, and \<^verbatim>\<open>scheduled\<close> to
  \<^verbatim>\<open>cancelled\<close>, with one more transition: \<^verbatim>\<open>scheduled\<close> to \<^verbatim>\<open>failed\<close>, inside
  \<^verbatim>\<open>schedule_task\<close>, when registering the timer fails. \<^verbatim>\<open>reschedule_task\<close> leaves every
  status as it is, and no operation moves a job out of \<^verbatim>\<open>completed\<close>, \<^verbatim>\<open>failed\<close> or
  \<^verbatim>\<open>cancelled\<close>.
\<close>

theorem job_lifecycle:
  assumes "run_events caps fromisoformat new_scheduler evs = Some s" and "enabled s ev"
  shows "successively (\<lambda>a b. lifecycle a b \<or> registration_failed ev a b)
           (status_path caps fromisoformat s ev tid)
         \<and> (case ev of
               Reschedule c new_time now add_failure \<Rightarrow>
                 status_of (step caps fromisoformat s ev) tid = status_of s tid
             | _ \<Rightarrow> True)"
proof -
  have "timers_scheduled s"
    by (rule run_keeps_timers_scheduled [OF timers_scheduled_new assms(1)])
  then have "successively (\<lambda>a b. lifecycle a b \<or> registration_failed ev a b)
               (status_path caps fromisoformat s ev tid)"
    by (rule path_follows_lifecycle [OF _ assms(2)])
  moreover have "case ev of
               Reschedule c new_time now add_failure \<Rightarrow>
                 status_of (step caps fromisoformat s ev) tid = status_of s tid
             | _ \<Rightarrow> True"
    by (cases ev) (simp_all add: status_of_reschedule)
  ultimately show ?thesis ..
qed


theorem job_lifecycle_witness:
  "successively
     (\<lambda>a b. lifecycle a b \<or> registration_failed (Fire ''job-1'' 2026 epoch epoch) a b)
     (status_path echo_agent example_parser one_job_example (Fire ''job-1'' 2026 epoch epoch) ''job-1'')
   \<and> status_path echo_agent example_parser one_job_example (Fire ''job-1'' 2026 epoch epoch) ''job-1''
       = [Some Scheduled, Some Running, Some Completed]"
proof -
  have r: "run_events echo_agent example_parser new_scheduler
             [Schedule ''job-1'' epoch epoch None ''consultation'' ''session-1'' ''Tax Agent'' None None]
           = Some one_job_example"
    by (simp add: one_job_example_def) (simp add: new_scheduler_def)
  have e: "enabled one_job_example (Fire ''job-1'' 2026 epoch epoch)"
    by (simp add: one_job_example_eval)
  from job_lifecycle [OF r e, of "''job-1''"]
  have "successively
     (\<lambda>a b. lifecycle a b \<or> registration_failed (Fire ''job-1'' 2026 epoch epoch) a b)
     (status_path echo_agent example_parser one_job_example (Fire ''job-1'' 2026 epoch epoch) ''job-1'')"
    by simp
  moreover have "status_path echo_agent example_parser one_job_example
                   (Fire ''job-1'' 2026 epoch epoch) ''job-1''
                 = [Some Scheduled, Some Running, Some Completed]"
    by (simp add: one_job_example_eval status_of_begin fire_one_job_example)
  ultimately show ?thesis ..
qed


end
